theory Spec2Isabelle
  imports Complex_Main "HOL-Library.Multiset"
begin

section \<open>The environment of the bot\<close>

text \<open>
  The bot talks to four collaborators: the Telegram transport (\<open>bot.send_message\<close>,
  \<open>bot.send_photo\<close>, \<open>bot.get_chat_member\<close>), the SQLite store, the logger and the
  event loop's \<open>asyncio.sleep\<close>; the raffle also reads the random module and the
  scheduler the wall clock. What a collaborator answers is not decided by the program,
  so it is an oracle of the environment \<open>env\<close>, indexed by the number of interactions made so
  far (\<open>step\<close> of the world) and by the arguments of the call. What
  the program does to a collaborator is appended to the \<open>trace\<close> of the world.
  Log entries are recorded with their level; their text is not modelled.
  The calls of the admin dialogue that are not calls of \<open>bot.send_message\<close> are events of
  their own: \<open>callback.message.answer\<close>, a message to the chat of the callback query,
  with the outcome of the transport; answering the callback query, editing and deleting the
  message under the button, with whether they raised, which \<open>ui_raises\<close> decides;
  clearing the FSM state.
\<close>

datatype level = Debug | Info | Warning | Error

text \<open>
  The outcomes of one transport send, in the order of the \<open>except\<close> clauses of
  \<open>safe_send_message\<close>: \<open>TelegramRetryAfter\<close> carries \<open>retry_after\<close>;
  \<open>TelegramAPIError\<close> stands for an API error that is neither of the two clauses before it.
\<close>

datatype send_outcome =
    SendOk
  | TelegramRetryAfter int
  | TelegramNetworkError
  | TelegramAPIError
  | OtherException

datatype ChatMemberStatus = CREATOR | ADMINISTRATOR | MEMBER | RESTRICTED | LEFT | KICKED

datatype member_outcome = Status ChatMemberStatus | LookupRaised

text \<open>A configured channel id is whatever \<open>config\<close> read from the environment: nothing, a number or a string.\<close>

datatype channel_id = IdNone | IdInt int | IdStr string

datatype event =
    SendMessage int string send_outcome
  | SendPhoto int string string send_outcome
  | GetChatMember channel_id int member_outcome
  | Sleep rat
  | Log level
  | AnswerCallback "string option" bool
  | MessageAnswer int string send_outcome
  | EditText int string bool
  | EditCaption int string bool
  | DeleteMessage int bool
  | StateClear

type_synonym datetime = "int \<times> int \<times> int \<times> int \<times> int \<times> int"

record env =
  send_result :: "nat \<Rightarrow> int \<Rightarrow> string \<Rightarrow> send_outcome"
  photo_result :: "nat \<Rightarrow> int \<Rightarrow> string \<Rightarrow> string \<Rightarrow> send_outcome"
  member_result :: "nat \<Rightarrow> channel_id \<Rightarrow> int \<Rightarrow> member_outcome"
  db_raises :: "nat \<Rightarrow> bool"
  ui_raises :: "nat \<Rightarrow> bool"
  clock :: "nat \<Rightarrow> datetime"
  random_draw :: "nat \<Rightarrow> nat"

section \<open>The store (database.py)\<close>

text \<open>
  A raffle participant is the dict \<open>{user_id, username, first_name}\<close>; a row of the table
  \<open>users\<close> has \<open>registered_at\<close> and \<open>subscribed\<close> besides, and a row of
  \<open>raffle_winners\<close> the prize, its own \<open>id\<close> and \<open>raffle_date\<close>. \<open>None\<close> is SQL's NULL.
\<close>

record participant =
  user_id :: int
  username :: "string option"
  first_name :: "string option"

record user_row = participant +
  registered_at :: datetime
  subscribed :: int

record winner_data = participant +
  prize_place :: int
  prize_amount :: string

record winner_row = winner_data +
  row_id :: int
  raffle_date :: datetime

record world =
  step :: nat
  users :: "user_row list"
  raffle_winners :: "winner_row list"
  trace :: "event list"

definition logger :: "level \<Rightarrow> world \<Rightarrow> world" where
  "logger l w = w\<lparr>trace := trace w @ [Log l]\<rparr>"

definition sleep :: "rat \<Rightarrow> world \<Rightarrow> world" where
  "sleep d w = w\<lparr>trace := trace w @ [Sleep d]\<rparr>"

text \<open>
  One interaction with a collaborator advances the step counter; \<open>interact\<close> also records the
  event (transport calls), \<open>advance\<close> does not (store, clock and random module).
\<close>

definition advance :: "world \<Rightarrow> world" where
  "advance w = w\<lparr>step := Suc (step w)\<rparr>"

definition interact :: "event \<Rightarrow> world \<Rightarrow> world" where
  "interact ev w = w\<lparr>step := Suc (step w), trace := trace w @ [ev]\<rparr>"

section \<open>The send primitive (scheduler.py, safe_send_message)\<close>

text \<open>
  The \<open>for attempt in range(max_retries)\<close> loop, from \<open>attempt\<close> on. Every \<open>continue\<close>
  goes to the next value of \<open>attempt\<close>; when the range is used up the function returns
  \<open>False\<close> (the last line of the source).
\<close>

function send_loop :: "env \<Rightarrow> int \<Rightarrow> string \<Rightarrow> int \<Rightarrow> int \<Rightarrow> world \<Rightarrow> bool \<times> world" where
  "send_loop e chat_id text max_retries attempt w =
     (if attempt < max_retries then
        (let r = send_result e (step w) chat_id text;
             w1 = interact (SendMessage chat_id text r) w
         in case r of
              SendOk \<Rightarrow> (True, w1)
            | TelegramRetryAfter wait_time \<Rightarrow>
                send_loop e chat_id text max_retries (attempt + 1)
                  (sleep (of_int wait_time) (logger Warning w1))
            | TelegramNetworkError \<Rightarrow>
                (if attempt < max_retries - 1 then
                   send_loop e chat_id text max_retries (attempt + 1)
                     (sleep (of_int ((attempt + 1) * 2)) (logger Warning w1))
                 else (False, logger Error w1))
            | TelegramAPIError \<Rightarrow> (False, logger Error w1)
            | OtherException \<Rightarrow> (False, logger Error w1))
      else (False, w))"
  by pat_completeness auto
termination
  by (relation "measure (\<lambda>(e, chat_id, text, max_retries, attempt, w). nat (max_retries - attempt))") auto

declare send_loop.simps [simp del]

definition safe_send_message :: "env \<Rightarrow> int \<Rightarrow> string \<Rightarrow> int \<Rightarrow> world \<Rightarrow> bool \<times> world" where
  "safe_send_message e chat_id text max_retries w = send_loop e chat_id text max_retries 0 w"

section \<open>Configuration and message texts (config and messages modules)\<close>

text \<open>
  A broadcast of \<open>BROADCASTS\<close> is a dict with its \<open>day\<close> label and, under
  \<open>reminders\<close>, one \<open>date\<close> tuple (year, month, day, hour, minute) for each of
  \<open>day_before\<close>, \<open>hour_before\<close> and \<open>after\<close>. The scheduler reads nothing else of it.
\<close>

type_synonym time_tuple = "int \<times> int \<times> int \<times> int \<times> int"

record broadcast =
  day :: string
  day_before_date :: time_tuple
  hour_before_date :: time_tuple
  after_date :: time_tuple

text \<open>
  The modules \<open>config\<close> and \<open>messages\<close> are imported by the scheduler and not part of the
  sources at hand: their constants and message renderers are parameters of the model.
\<close>

record config =
  BROADCASTS :: "broadcast list"
  MARATHON_END_DATE :: time_tuple
  CHANNEL_MAIN_ID :: channel_id
  CHANNEL_OKSANA_ID :: channel_id
  CHANNEL_NATALIA_ID :: channel_id
  CHANNEL_MARIA_ID :: channel_id
  get_day_before_message :: "broadcast \<Rightarrow> string"
  get_hour_before_message :: "broadcast \<Rightarrow> string"
  get_after_broadcast_message :: "broadcast \<Rightarrow> string"
  MESSAGE_MARATHON_END :: string
  get_raffle_message :: "winner_data list \<Rightarrow> string"

section \<open>The subscription check (scheduler.py, check_subscription)\<close>

text \<open>Python's truth value of a configured id: \<open>None\<close>, \<open>0\<close> and the empty string are false.\<close>

fun truthy :: "channel_id \<Rightarrow> bool" where
  "truthy IdNone = False"
| "truthy (IdInt n) = (n \<noteq> 0)"
| "truthy (IdStr s) = (s \<noteq> [])"

text \<open>The values of the dict \<open>channel_ids\<close>, in insertion order.\<close>

definition channel_ids :: "config \<Rightarrow> channel_id list" where
  "channel_ids cfg = [CHANNEL_MAIN_ID cfg, CHANNEL_OKSANA_ID cfg, CHANNEL_NATALIA_ID cfg, CHANNEL_MARIA_ID cfg]"

definition is_subscribed_status :: "ChatMemberStatus \<Rightarrow> bool" where
  "is_subscribed_status s = (s \<in> set [MEMBER, ADMINISTRATOR, CREATOR])"

text \<open>The loop over the channels: it returns the list \<open>statuses\<close>.\<close>

fun check_channels :: "env \<Rightarrow> int \<Rightarrow> channel_id list \<Rightarrow> world \<Rightarrow> bool list \<times> world" where
  "check_channels e uid [] w = ([], w)"
| "check_channels e uid (c # cs) w =
     (let r = member_result e (step w) c uid;
          w1 = interact (GetChatMember c uid r) w
      in case r of
           Status s \<Rightarrow>
             (let (statuses, w2) = check_channels e uid cs w1
              in (is_subscribed_status s # statuses, w2))
         | LookupRaised \<Rightarrow>
             (let (statuses, w2) = check_channels e uid cs (logger Error w1)
              in (False # statuses, w2)))"

definition check_subscription :: "env \<Rightarrow> config \<Rightarrow> int \<Rightarrow> world \<Rightarrow> bool \<times> world" where
  "check_subscription e cfg uid w =
     (if \<not> list_all truthy (channel_ids cfg) then (True, logger Warning w)
      else (let (statuses, w1) = check_channels e uid (channel_ids cfg) w
            in (list_all (\<lambda>b. b) statuses, w1)))"

section \<open>The store operations (database.py)\<close>

text \<open>
  Every operation opens its own connection and commits once at its end, so an operation
  that raises leaves the tables as they were. Whether the operation started at step
  \<open>n\<close> raises is \<open>db_raises e n\<close>. The rows of \<open>users\<close> are kept in the order of
  their primary key \<open>user_id\<close>, which is the order in which a \<open>SELECT\<close> without
  \<open>ORDER BY\<close> reads them; the rows of \<open>raffle_winners\<close> in the order of their ids, the
  order of insertion.
\<close>

definition add_user :: "env \<Rightarrow> int \<Rightarrow> string option \<Rightarrow> string option \<Rightarrow> world \<Rightarrow> world" where
  "add_user e uid un fn w =
     (if db_raises e (step w) then logger Error (advance w)
      else (let w1 = advance w;
                exists = list_ex (\<lambda>r. user_id r = uid) (users w1);
                w2 = (if exists then
                        w1\<lparr>users := map (\<lambda>r. if user_id r = uid
                                               then r\<lparr>username := un, first_name := fn\<rparr> else r) (users w1)\<rparr>
                      else
                        w1\<lparr>users := insort_key user_id
                             \<lparr>user_id = uid, username = un, first_name = fn,
                               registered_at = clock e (step w), subscribed = 0\<rparr> (users w1)\<rparr>)
            in logger Debug w2))"

definition mark_subscribed :: "env \<Rightarrow> int \<Rightarrow> world \<Rightarrow> world" where
  "mark_subscribed e uid w =
     (if db_raises e (step w) then logger Error (advance w)
      else logger Info ((advance w)\<lparr>users :=
             map (\<lambda>r. if user_id r = uid then r\<lparr>subscribed := 1\<rparr> else r) (users w)\<rparr>))"

definition get_all_registered_users :: "env \<Rightarrow> world \<Rightarrow> int list \<times> world" where
  "get_all_registered_users e w =
     (if db_raises e (step w) then ([], logger Error (advance w))
      else (map user_id (filter (\<lambda>r. subscribed r = 1) (users w)), logger Info (advance w)))"

definition get_eligible_raffle_participants :: "env \<Rightarrow> world \<Rightarrow> participant list \<times> world" where
  "get_eligible_raffle_participants e w =
     (if db_raises e (step w) then ([], logger Error (advance w))
      else (map (\<lambda>r. \<lparr>user_id = user_id r, username = username r, first_name = first_name r\<rparr>)
              (filter (\<lambda>r. subscribed r = 1 \<and> username r \<noteq> None \<and> username r \<noteq> Some [])
                 (users w)),
            logger Info (advance w)))"

definition update_user_subscription_status :: "env \<Rightarrow> int \<Rightarrow> bool \<Rightarrow> world \<Rightarrow> world" where
  "update_user_subscription_status e uid is_subscribed w =
     (if db_raises e (step w) then logger Error (advance w)
      else logger Debug ((advance w)\<lparr>users :=
             map (\<lambda>r. if user_id r = uid then r\<lparr>subscribed := (if is_subscribed then 1 else 0)\<rparr> else r)
               (users w)\<rparr>))"

text \<open>
  \<open>save_raffle_winners\<close> logs and re-raises: the first component is \<open>True\<close> when it raised.
  The rows of one batch get consecutive ids; each \<open>INSERT\<close> reads the store's clock for
  its own \<open>raffle_date\<close>, at the steps from \<open>n\<close> on.
\<close>

fun insert_winners :: "env \<Rightarrow> nat \<Rightarrow> winner_data list \<Rightarrow> winner_row list \<Rightarrow> winner_row list" where
  "insert_winners e n [] rows = rows"
| "insert_winners e n (wd # wds) rows =
     insert_winners e (Suc n) wds
       (rows @ [\<lparr>user_id = user_id wd, username = username wd, first_name = first_name wd,
                 prize_place = prize_place wd, prize_amount = prize_amount wd,
                 row_id = int (length rows) + 1, raffle_date = clock e n\<rparr>])"

definition save_raffle_winners :: "env \<Rightarrow> winner_data list \<Rightarrow> world \<Rightarrow> bool \<times> world" where
  "save_raffle_winners e winners w =
     (if db_raises e (step w) then (True, logger Error (advance w))
      else (False, logger Info ((advance w)\<lparr>step := Suc (step w) + length winners,
              raffle_winners := insert_winners e (Suc (step w)) winners (raffle_winners w)\<rparr>)))"

section \<open>Fan-out and the scheduler tick (scheduler.py, check_and_send_reminders)\<close>

text \<open>
  The loop \<open>for user_id in users: await safe_send_message(bot, user_id, message);
  await asyncio.sleep(0.05)\<close>, which the scheduler writes out at each of its five
  broadcasts; \<open>max_retries\<close> has its default 3.
\<close>

fun fanout :: "env \<Rightarrow> int list \<Rightarrow> string \<Rightarrow> world \<Rightarrow> world" where
  "fanout e [] message w = w"
| "fanout e (uid # uids) message w =
     fanout e uids message (sleep (1 / 20) (snd (safe_send_message e uid message 3 w)))"

text \<open>The body of the loop over \<open>BROADCASTS\<close>: the three reminders of one broadcast.\<close>

definition send_broadcast_reminders ::
  "env \<Rightarrow> config \<Rightarrow> time_tuple \<Rightarrow> int list \<Rightarrow> world \<Rightarrow> broadcast \<Rightarrow> world" where
  "send_broadcast_reminders e cfg current_time uids w b =
     (let w1 = (if current_time = day_before_date b
                then fanout e uids (get_day_before_message cfg b) (logger Info w) else w);
          w2 = (if current_time = hour_before_date b
                then fanout e uids (get_hour_before_message cfg b) (logger Info w1) else w1);
          w3 = (if current_time = after_date b
                then fanout e uids (get_after_broadcast_message cfg b) (logger Info w2) else w2)
      in w3)"

definition now_tuple :: "datetime \<Rightarrow> time_tuple" where
  "now_tuple t = (case t of (y, mo, d, h, mi, s) \<Rightarrow> (y, mo, d, h, mi))"

definition check_and_send_reminders :: "env \<Rightarrow> config \<Rightarrow> world \<Rightarrow> world" where
  "check_and_send_reminders e cfg w =
     (let current_time = now_tuple (clock e (step w));
          (uids, w1) = get_all_registered_users e (advance w)
      in if uids = [] then logger Debug w1
         else (let w2 = logger Info w1;
                   w3 = foldl (send_broadcast_reminders e cfg current_time uids) w2 (BROADCASTS cfg)
               in if current_time = MARATHON_END_DATE cfg
                  then fanout e uids (MESSAGE_MARATHON_END cfg) (logger Info w3)
                  else w3))"

section \<open>The admin broadcast (bot.py, confirm_send_callback)\<close>

text \<open>
  The message to broadcast: its text and the file id of its photo, if any.
\<close>

record message_data =
  md_text :: string
  md_photo :: "string option"

text \<open>
  The loop over the recipients: the transport is called directly, the pause stands inside
  the \<open>try\<close> block after the send, and the \<open>except\<close> clause counts and logs the error.
\<close>

fun admin_send_loop ::
  "env \<Rightarrow> message_data \<Rightarrow> int list \<Rightarrow> nat \<times> nat \<Rightarrow> world \<Rightarrow> (nat \<times> nat) \<times> world" where
  "admin_send_loop e md [] counts w = (counts, w)"
| "admin_send_loop e md (uid # uids) (success_count, error_count) w =
     (let (r, w1) =
            (case md_photo md of
               Some p \<Rightarrow>
                 (if p \<noteq> [] then
                    (let r = photo_result e (step w) uid p (md_text md)
                     in (r, interact (SendPhoto uid p (md_text md) r) w))
                  else
                    (let r = send_result e (step w) uid (md_text md)
                     in (r, interact (SendMessage uid (md_text md) r) w)))
             | None \<Rightarrow>
                 (let r = send_result e (step w) uid (md_text md)
                  in (r, interact (SendMessage uid (md_text md) r) w)))
      in if r = SendOk
         then admin_send_loop e md uids (Suc success_count, error_count) (sleep (1 / 20) w1)
         else admin_send_loop e md uids (success_count, Suc error_count) (logger Error w1))"

text \<open>
  The broadcast itself, lines 399 to 429 of the handler: the read of the recipients and the
  loop over them, with the counts the loop ends with. The messages of the handler to the
  administrator are in \<open>confirm_send_callback_handler\<close> below.
\<close>

definition confirm_send_callback :: "env \<Rightarrow> message_data \<Rightarrow> world \<Rightarrow> (nat \<times> nat) \<times> world" where
  "confirm_send_callback e md w =
     (let (uids, w1) = get_all_registered_users e w
      in if uids = [] then ((0, 0), w1)
         else admin_send_loop e md uids (0, 0) w1)"

text \<open>
  \<open>confirm_send_callback\<close> above is the part of the handler from the read of the
  recipients to the end of the loop. The whole handler follows, with its dialogue with the
  administrator: the callback query, whose message (the preview under the buttons) has a
  chat, and a text or a caption; \<open>callback.answer\<close> and \<open>callback.message.answer\<close>, which
  raise into the dispatcher when the transport fails; \<open>safe_edit_message\<close>, which never
  raises; and the texts of the handler, in UTF-8.
\<close>

record callback_query =
  cb_chat_id :: int
  cb_message_text :: "string option"
  cb_message_caption :: "string option"

definition TEXT_NO_MESSAGE_DATA :: string where
  "TEXT_NO_MESSAGE_DATA =
     [CHR 0xD0, CHR 0x9E, CHR 0xD1, CHR 0x88, CHR 0xD0, CHR 0xB8, CHR 0xD0, CHR 0xB1] @
     [CHR 0xD0, CHR 0xBA, CHR 0xD0, CHR 0xB0] @ '': '' @
     [CHR 0xD0, CHR 0xB4, CHR 0xD0, CHR 0xB0, CHR 0xD0, CHR 0xBD, CHR 0xD0, CHR 0xBD] @
     [CHR 0xD1, CHR 0x8B, CHR 0xD0, CHR 0xB5] @ '' '' @
     [CHR 0xD1, CHR 0x81, CHR 0xD0, CHR 0xBE, CHR 0xD0, CHR 0xBE, CHR 0xD0, CHR 0xB1] @
     [CHR 0xD1, CHR 0x89, CHR 0xD0, CHR 0xB5, CHR 0xD0, CHR 0xBD, CHR 0xD0, CHR 0xB8] @
     [CHR 0xD1, CHR 0x8F] @ '' '' @ [CHR 0xD0, CHR 0xBD, CHR 0xD0, CHR 0xB5] @ '' '' @
     [CHR 0xD0, CHR 0xBD, CHR 0xD0, CHR 0xB0, CHR 0xD0, CHR 0xB9, CHR 0xD0, CHR 0xB4] @
     [CHR 0xD0, CHR 0xB5, CHR 0xD0, CHR 0xBD, CHR 0xD1, CHR 0x8B]"

definition TEXT_SENDING :: string where
  "TEXT_SENDING =
     [CHR 0xE2, CHR 0x8F, CHR 0xB3] @ '' '' @
     [CHR 0xD0, CHR 0x9E, CHR 0xD1, CHR 0x82, CHR 0xD0, CHR 0xBF, CHR 0xD1, CHR 0x80] @
     [CHR 0xD0, CHR 0xB0, CHR 0xD0, CHR 0xB2, CHR 0xD0, CHR 0xBA, CHR 0xD0, CHR 0xB0] @
     '' '' @
     [CHR 0xD1, CHR 0x81, CHR 0xD0, CHR 0xBE, CHR 0xD0, CHR 0xBE, CHR 0xD0, CHR 0xB1] @
     [CHR 0xD1, CHR 0x89, CHR 0xD0, CHR 0xB5, CHR 0xD0, CHR 0xBD, CHR 0xD0, CHR 0xB8] @
     [CHR 0xD0, CHR 0xB9] @ ''...''"

definition TEXT_NO_USERS :: string where
  "TEXT_NO_USERS =
     [CHR 0xE2, CHR 0x9D, CHR 0x8C] @ '' '' @
     [CHR 0xD0, CHR 0x9D, CHR 0xD0, CHR 0xB5, CHR 0xD1, CHR 0x82] @ '' '' @
     [CHR 0xD0, CHR 0xB7, CHR 0xD0, CHR 0xB0, CHR 0xD1, CHR 0x80, CHR 0xD0, CHR 0xB5] @
     [CHR 0xD0, CHR 0xB3, CHR 0xD0, CHR 0xB8, CHR 0xD1, CHR 0x81, CHR 0xD1, CHR 0x82] @
     [CHR 0xD1, CHR 0x80, CHR 0xD0, CHR 0xB8, CHR 0xD1, CHR 0x80, CHR 0xD0, CHR 0xBE] @
     [CHR 0xD0, CHR 0xB2, CHR 0xD0, CHR 0xB0, CHR 0xD0, CHR 0xBD, CHR 0xD0, CHR 0xBD] @
     [CHR 0xD1, CHR 0x8B, CHR 0xD1, CHR 0x85] @ '' '' @
     [CHR 0xD0, CHR 0xBF, CHR 0xD0, CHR 0xBE, CHR 0xD0, CHR 0xBB, CHR 0xD1, CHR 0x8C] @
     [CHR 0xD0, CHR 0xB7, CHR 0xD0, CHR 0xBE, CHR 0xD0, CHR 0xB2, CHR 0xD0, CHR 0xB0] @
     [CHR 0xD1, CHR 0x82, CHR 0xD0, CHR 0xB5, CHR 0xD0, CHR 0xBB, CHR 0xD0, CHR 0xB5] @
     [CHR 0xD0, CHR 0xB9] @ '' '' @
     [CHR 0xD0, CHR 0xB4, CHR 0xD0, CHR 0xBB, CHR 0xD1, CHR 0x8F] @ '' '' @
     [CHR 0xD1, CHR 0x80, CHR 0xD0, CHR 0xB0, CHR 0xD1, CHR 0x81, CHR 0xD1, CHR 0x81] @
     [CHR 0xD1, CHR 0x8B, CHR 0xD0, CHR 0xBB, CHR 0xD0, CHR 0xBA, CHR 0xD0, CHR 0xB8]"

definition TEXT_RESULT_SENT :: string where
  "TEXT_RESULT_SENT =
     [CHR 0xE2, CHR 0x9C, CHR 0x85] @ '' '' @
     [CHR 0xD0, CHR 0xA0, CHR 0xD0, CHR 0xB0, CHR 0xD1, CHR 0x81, CHR 0xD1, CHR 0x81] @
     [CHR 0xD1, CHR 0x8B, CHR 0xD0, CHR 0xBB, CHR 0xD0, CHR 0xBA, CHR 0xD0, CHR 0xB0] @
     '' '' @
     [CHR 0xD0, CHR 0xB7, CHR 0xD0, CHR 0xB0, CHR 0xD0, CHR 0xB2, CHR 0xD0, CHR 0xB5] @
     [CHR 0xD1, CHR 0x80, CHR 0xD1, CHR 0x88, CHR 0xD0, CHR 0xB5, CHR 0xD0, CHR 0xBD] @
     [CHR 0xD0, CHR 0xB0] @ ''!'' @
     [CHR 0x0A, CHR 0x0A, CHR 0xF0, CHR 0x9F, CHR 0x93, CHR 0x8A] @ '' '' @
     [CHR 0xD0, CHR 0xA3, CHR 0xD1, CHR 0x81, CHR 0xD0, CHR 0xBF, CHR 0xD0, CHR 0xB5] @
     [CHR 0xD1, CHR 0x88, CHR 0xD0, CHR 0xBD, CHR 0xD0, CHR 0xBE] @ '' '' @
     [CHR 0xD0, CHR 0xBE, CHR 0xD1, CHR 0x82, CHR 0xD0, CHR 0xBF, CHR 0xD1, CHR 0x80] @
     [CHR 0xD0, CHR 0xB0, CHR 0xD0, CHR 0xB2, CHR 0xD0, CHR 0xBB, CHR 0xD0, CHR 0xB5] @
     [CHR 0xD0, CHR 0xBD, CHR 0xD0, CHR 0xBE] @ '': ''"

definition TEXT_RESULT_ERRORS :: string where
  "TEXT_RESULT_ERRORS =
     [CHR 0x0A, CHR 0xE2, CHR 0x9D, CHR 0x8C] @ '' '' @
     [CHR 0xD0, CHR 0x9E, CHR 0xD1, CHR 0x88, CHR 0xD0, CHR 0xB8, CHR 0xD0, CHR 0xB1] @
     [CHR 0xD0, CHR 0xBE, CHR 0xD0, CHR 0xBA] @ '': ''"

definition TEXT_RESULT_TOTAL :: string where
  "TEXT_RESULT_TOTAL =
     [CHR 0x0A, CHR 0xF0, CHR 0x9F, CHR 0x93, CHR 0x88] @ '' '' @
     [CHR 0xD0, CHR 0x92, CHR 0xD1, CHR 0x81, CHR 0xD0, CHR 0xB5, CHR 0xD0, CHR 0xB3] @
     [CHR 0xD0, CHR 0xBE] @ '' '' @
     [CHR 0xD0, CHR 0xBF, CHR 0xD0, CHR 0xBE, CHR 0xD0, CHR 0xBB, CHR 0xD1, CHR 0x8C] @
     [CHR 0xD0, CHR 0xB7, CHR 0xD0, CHR 0xBE, CHR 0xD0, CHR 0xB2, CHR 0xD0, CHR 0xB0] @
     [CHR 0xD1, CHR 0x82, CHR 0xD0, CHR 0xB5, CHR 0xD0, CHR 0xBB, CHR 0xD0, CHR 0xB5] @
     [CHR 0xD0, CHR 0xB9] @ '': ''"

definition TEXT_DONE :: string where
  "TEXT_DONE =
     [CHR 0xD0, CHR 0xA0, CHR 0xD0, CHR 0xB0, CHR 0xD1, CHR 0x81, CHR 0xD1, CHR 0x81] @
     [CHR 0xD1, CHR 0x8B, CHR 0xD0, CHR 0xBB, CHR 0xD0, CHR 0xBA, CHR 0xD0, CHR 0xB0] @
     '' '' @
     [CHR 0xD0, CHR 0xB7, CHR 0xD0, CHR 0xB0, CHR 0xD0, CHR 0xB2, CHR 0xD0, CHR 0xB5] @
     [CHR 0xD1, CHR 0x80, CHR 0xD1, CHR 0x88, CHR 0xD0, CHR 0xB5, CHR 0xD0, CHR 0xBD] @
     [CHR 0xD0, CHR 0xB0]"

text \<open>Python's \<open>str\<close> of a count, and the escaping of the second attempt of \<open>safe_edit_message\<close>.\<close>

function str_nat :: "nat \<Rightarrow> string" where
  "str_nat n = (if n < 10 then [char_of (48 + n)] else str_nat (n div 10) @ [char_of (48 + n mod 10)])"
  by pat_completeness auto
termination
  by (relation "measure (\<lambda>n. n)") auto

declare str_nat.simps [simp del]

definition escape_markdown :: "string \<Rightarrow> string" where
  "escape_markdown s =
     concat (map (\<lambda>c. if c \<in> set ''_*[]()'' then [CHR 0x5C, c] else [c]) s)"

definition result_text :: "nat \<Rightarrow> nat \<Rightarrow> nat \<Rightarrow> string" where
  "result_text success_count error_count n_users =
     TEXT_RESULT_SENT @ str_nat success_count @ TEXT_RESULT_ERRORS @ str_nat error_count
       @ TEXT_RESULT_TOTAL @ str_nat n_users"

text \<open>The first component of the two answers is \<open>True\<close> when the call raised.\<close>

definition callback_answer :: "env \<Rightarrow> string option \<Rightarrow> world \<Rightarrow> bool \<times> world" where
  "callback_answer e alert w =
     (ui_raises e (step w), interact (AnswerCallback alert (ui_raises e (step w))) w)"

definition message_answer :: "env \<Rightarrow> callback_query \<Rightarrow> string \<Rightarrow> world \<Rightarrow> bool \<times> world" where
  "message_answer e cb t w =
     (let r = send_result e (step w) (cb_chat_id cb) t
      in (r \<noteq> SendOk, interact (MessageAnswer (cb_chat_id cb) t r) w))"

definition state_clear :: "world \<Rightarrow> world" where
  "state_clear w = w\<lparr>trace := trace w @ [StateClear]\<rparr>"

text \<open>
  \<open>safe_edit_message\<close>: edit the text, or the caption, of the message; when the message
  has neither or the edit raises, delete the message and send a new one to its chat, a
  second time with the text escaped when the first send raises.
\<close>

definition safe_edit_message :: "env \<Rightarrow> callback_query \<Rightarrow> string \<Rightarrow> world \<Rightarrow> world" where
  "safe_edit_message e cb t w =
     (let has_text = (cb_message_text cb \<noteq> None \<and> cb_message_text cb \<noteq> Some []);
          has_caption = (cb_message_caption cb \<noteq> None \<and> cb_message_caption cb \<noteq> Some []);
          (edited, w1) =
            (if has_text \<or> has_caption then
               (let raised = ui_raises e (step w);
                    w' = interact (if has_text then EditText (cb_chat_id cb) t raised
                                   else EditCaption (cb_chat_id cb) t raised) w
                in if raised then (False, logger Warning w') else (True, w'))
             else (False, w))
      in if edited then w1
         else (let deleted = ui_raises e (step w1);
                   w2 = interact (DeleteMessage (cb_chat_id cb) deleted) w1;
                   w3 = (if deleted then logger Debug w2 else w2);
                   r = send_result e (step w3) (cb_chat_id cb) t;
                   w4 = interact (SendMessage (cb_chat_id cb) t r) w3
               in if r = SendOk then logger Info w4
                  else (let w5 = logger Error w4;
                            r' = send_result e (step w5) (cb_chat_id cb) (escape_markdown t);
                            w6 = interact (SendMessage (cb_chat_id cb) (escape_markdown t) r') w5
                        in if r' = SendOk then w6 else logger Error w6)))"

text \<open>
  The handler up to the read of the recipients, for a message that is there: the notice
  to the administrator and the answer to the callback query.
\<close>

definition confirm_send_prologue :: "env \<Rightarrow> callback_query \<Rightarrow> world \<Rightarrow> bool \<times> world" where
  "confirm_send_prologue e cb w = callback_answer e None (safe_edit_message e cb TEXT_SENDING w)"

text \<open>
  The whole handler; \<open>message_data\<close> is what the FSM state holds under that key, if
  anything. It returns whether an exception left the handler, and the world.
\<close>

definition confirm_send_callback_handler ::
  "env \<Rightarrow> callback_query \<Rightarrow> message_data option \<Rightarrow> world \<Rightarrow> bool \<times> world" where
  "confirm_send_callback_handler e cb message_data w =
     (case message_data of
        None \<Rightarrow>
          (let (raised, w1) = callback_answer e (Some TEXT_NO_MESSAGE_DATA) w
           in if raised then (True, w1) else (False, state_clear w1))
      | Some md \<Rightarrow>
          (let (raised, w1) = confirm_send_prologue e cb w
           in if raised then (True, w1)
              else (let (uids, w2) = get_all_registered_users e w1
                    in if uids = [] then
                         (let (raised, w3) = message_answer e cb TEXT_NO_USERS w2
                          in if raised then (True, w3) else (False, state_clear w3))
                       else
                         (let ((success_count, error_count), w3) = admin_send_loop e md uids (0, 0) w2;
                              w4 = safe_edit_message e cb
                                     (result_text success_count error_count (length uids)) w3;
                              (raised, w5) = message_answer e cb TEXT_DONE w4
                          in if raised then (True, w5) else (False, state_clear w5)))))"

section \<open>The raffle (scheduler.py, conduct_raffle)\<close>

text \<open>
  The random module is a collaborator. \<open>random.sample(population, k)\<close> returns \<open>k\<close>
  elements from distinct positions of the population, in the order drawn, and raises
  \<open>ValueError\<close> when \<open>k\<close> exceeds the population; \<open>random.shuffle\<close> permutes a list.
  Both are modelled as draws without replacement: each draw takes the element at the
  position the environment names (reduced modulo the size of the pool) out of the pool.
  Every result the library can return is the result of some sequence of draws.
\<close>

fun draw_k :: "(nat \<Rightarrow> nat) \<Rightarrow> nat \<Rightarrow> 'a list \<Rightarrow> nat \<Rightarrow> 'a list" where
  "draw_k g n pool 0 = []"
| "draw_k g n pool (Suc k) =
     (if pool = [] then []
      else (let j = g n mod length pool
            in pool ! j # draw_k g (Suc n) (take j pool @ drop (Suc j) pool) k))"

definition advance_by :: "nat \<Rightarrow> world \<Rightarrow> world" where
  "advance_by k w = w\<lparr>step := step w + k\<rparr>"

definition random_sample :: "env \<Rightarrow> 'a list \<Rightarrow> nat \<Rightarrow> world \<Rightarrow> 'a list option \<times> world" where
  "random_sample e population k w =
     (if length population < k then (None, w)
      else (Some (draw_k (random_draw e) (step w) population k), advance_by k w))"

definition random_shuffle :: "env \<Rightarrow> 'a list \<Rightarrow> world \<Rightarrow> 'a list \<times> world" where
  "random_shuffle e xs w =
     (draw_k (random_draw e) (step w) xs (length xs), advance_by (length xs) w)"

text \<open>The rouble sign is three bytes in UTF-8.\<close>

definition rouble :: string where
  "rouble = [CHR 0xE2, CHR 0x82, CHR 0xBD]"

definition prizes :: "(int \<times> string) list" where
  "prizes = [(1, ''10 000 '' @ rouble), (2, ''5 000 '' @ rouble), (3, ''3 000 '' @ rouble)]"

text \<open>
  The loop over the participants that checks their subscription again; it returns
  \<open>eligible_participants\<close>.
\<close>

fun recheck_participants ::
  "env \<Rightarrow> config \<Rightarrow> participant list \<Rightarrow> world \<Rightarrow> participant list \<times> world" where
  "recheck_participants e cfg [] w = ([], w)"
| "recheck_participants e cfg (p # ps) w =
     (if username p = None \<or> username p = Some []
      then recheck_participants e cfg ps (logger Debug w)
      else (let (is_subscribed, w1) = check_subscription e cfg (user_id p) w;
                w2 = update_user_subscription_status e (user_id p) is_subscribed w1
            in if is_subscribed
               then (let (eligible, w3) = recheck_participants e cfg ps w2 in (p # eligible, w3))
               else recheck_participants e cfg ps (logger Debug w2)))"

text \<open>
  The choice of the winners: a sample of three when more than three are eligible, a
  shuffled copy otherwise. \<open>None\<close> is an exception of the library.
\<close>

definition select_winners ::
  "env \<Rightarrow> participant list \<Rightarrow> world \<Rightarrow> participant list option \<times> world" where
  "select_winners e eligible_participants w =
     (if length eligible_participants > 3 then random_sample e eligible_participants 3 w
      else (let (winners, w1) = random_shuffle e eligible_participants w in (Some winners, w1)))"

text \<open>
  The loop \<open>for i in range(num_winners)\<close> that builds \<open>winners_data\<close>. An index outside
  \<open>winners\<close> or \<open>prizes\<close> raises \<open>IndexError\<close>: the result \<open>None\<close>.
\<close>

function winners_loop ::
  "participant list \<Rightarrow> nat \<Rightarrow> nat \<Rightarrow> winner_data list \<Rightarrow> world \<Rightarrow> winner_data list option \<times> world" where
  "winners_loop winners num_winners i winners_data w =
     (if i < num_winners then
        (if i < length winners \<and> i < length prizes then
           (let winner = winners ! i;
                prize = prizes ! i;
                winner_data = \<lparr>user_id = user_id winner, username = username winner,
                                first_name = first_name winner,
                                prize_place = fst prize, prize_amount = snd prize\<rparr>
            in winners_loop winners num_winners (Suc i) (winners_data @ [winner_data]) (logger Info w))
         else (None, w))
      else (Some winners_data, w))"
  by pat_completeness auto
termination
  by (relation "measure (\<lambda>(winners, num_winners, i, winners_data, w). num_winners - i)") auto

declare winners_loop.simps [simp del]

text \<open>From the number of winners to \<open>winners_data\<close>.\<close>

definition draw_winners ::
  "env \<Rightarrow> participant list \<Rightarrow> world \<Rightarrow> winner_data list option \<times> world" where
  "draw_winners e eligible_participants w =
     (let num_winners = min (length eligible_participants) 3
      in case select_winners e eligible_participants w of
           (None, w1) \<Rightarrow> (None, w1)
         | (Some winners, w1) \<Rightarrow> winners_loop winners num_winners 0 [] w1)"

text \<open>
  The whole raffle. An exception inside the \<open>try\<close> block (from the draw, or from
  \<open>save_raffle_winners\<close>, which re-raises) ends the raffle in the \<open>except\<close> clause, which logs it.
\<close>

definition conduct_raffle :: "env \<Rightarrow> config \<Rightarrow> world \<Rightarrow> world" where
  "conduct_raffle e cfg w =
     (let (participants, w1) = get_eligible_raffle_participants e (logger Info w)
      in if participants = [] then logger Warning w1
         else (let (eligible_participants, w2) = recheck_participants e cfg participants (logger Info w1);
                   w3 = logger Info w2
               in if length eligible_participants = 0 then w3
                  else (case draw_winners e eligible_participants w3 of
                          (None, w4) \<Rightarrow> logger Error w4
                        | (Some winners_data, w4) \<Rightarrow>
                            (let (raised, w5) = save_raffle_winners e winners_data w4
                             in if raised then logger Error w5
                                else (let message = get_raffle_message cfg winners_data;
                                          (uids, w6) = get_all_registered_users e (logger Info w5);
                                          w7 = fanout e uids message (logger Info w6)
                                      in logger Info w7)))))"

section \<open>Reading a trace\<close>

text \<open>
  What a trace shows: the sends attempted with \<open>bot.send_message\<close> and
  \<open>bot.send_photo\<close> (recipient and text), the sleeps, the messages answered into the chat
  of a callback query, the membership lookups and the levels of the log entries.
\<close>

fun sends :: "event list \<Rightarrow> (int \<times> string) list" where
  "sends [] = []"
| "sends (SendMessage c t r # evs) = (c, t) # sends evs"
| "sends (SendPhoto c p t r # evs) = (c, t) # sends evs"
| "sends (ev # evs) = sends evs"

fun sleeps :: "event list \<Rightarrow> rat list" where
  "sleeps [] = []"
| "sleeps (Sleep d # evs) = d # sleeps evs"
| "sleeps (ev # evs) = sleeps evs"

fun answers :: "event list \<Rightarrow> (int \<times> string) list" where
  "answers [] = []"
| "answers (MessageAnswer c t r # evs) = (c, t) # answers evs"
| "answers (ev # evs) = answers evs"

fun lookups :: "event list \<Rightarrow> (channel_id \<times> int) list" where
  "lookups [] = []"
| "lookups (GetChatMember c u r # evs) = (c, u) # lookups evs"
| "lookups (ev # evs) = lookups evs"

fun log_levels :: "event list \<Rightarrow> level list" where
  "log_levels [] = []"
| "log_levels (Log l # evs) = l # log_levels evs"
| "log_levels (ev # evs) = log_levels evs"

section \<open>Expected traces and sample inputs\<close>

text \<open>
  The events of one failed attempt that is tried again: after a network error the pause is
  twice the number of the attempt, after a rate limit the pause the server asked for.
\<close>

definition network_round :: "int \<Rightarrow> string \<Rightarrow> int \<Rightarrow> event list" where
  "network_round c t i = [SendMessage c t TelegramNetworkError, Log Warning, Sleep (of_int (i * 2))]"

definition network_failure_trace :: "int \<Rightarrow> string \<Rightarrow> int \<Rightarrow> event list" where
  "network_failure_trace c t m =
     (if 0 < m
      then concat (map (network_round c t) [1..m - 1]) @ [SendMessage c t TelegramNetworkError, Log Error]
      else [])"

definition empty_world :: world where
  "empty_world = \<lparr>step = 0, users = [], raffle_winners = [], trace = []\<rparr>"

definition quiet_env :: env where
  "quiet_env = \<lparr>send_result = (\<lambda>n c t. SendOk), photo_result = (\<lambda>n c p t. SendOk),
                 member_result = (\<lambda>n c u. Status MEMBER), db_raises = (\<lambda>n. False),
                 ui_raises = (\<lambda>n. False),
                 clock = (\<lambda>n. (2025, 1, 1, 12, 0, 0)), random_draw = (\<lambda>n. n)\<rparr>"

definition network_down_env :: env where
  "network_down_env = quiet_env\<lparr>send_result := (\<lambda>n c t. TelegramNetworkError)\<rparr>"

definition rate_limited_round :: "int \<Rightarrow> string \<Rightarrow> int \<Rightarrow> event list" where
  "rate_limited_round c t d = [SendMessage c t (TelegramRetryAfter d), Log Warning, Sleep (of_int d)]"

definition flood_env :: env where
  "flood_env = quiet_env\<lparr>send_result := (\<lambda>n c t. TelegramRetryAfter 5)\<rparr>"

text \<open>What one membership lookup contributes to the verdict: an error counts as not subscribed.\<close>

definition counts_as_subscribed :: "member_outcome \<Rightarrow> bool" where
  "counts_as_subscribed r = (case r of Status s \<Rightarrow> s = MEMBER \<or> s = ADMINISTRATOR \<or> s = CREATOR | LookupRaised \<Rightarrow> False)"

definition sample_config :: config where
  "sample_config =
     \<lparr>BROADCASTS = [\<lparr>day = ''day 1'', day_before_date = (2025, 1, 9, 19, 0),
                      hour_before_date = (2025, 1, 10, 18, 0), after_date = (2025, 1, 10, 21, 0)\<rparr>,
                    \<lparr>day = ''day 2'', day_before_date = (2025, 1, 10, 19, 0),
                      hour_before_date = (2025, 1, 11, 18, 0), after_date = (2025, 1, 11, 21, 0)\<rparr>],
      MARATHON_END_DATE = (2025, 1, 12, 12, 0),
      CHANNEL_MAIN_ID = IdInt (-1001), CHANNEL_OKSANA_ID = IdInt (-1002),
      CHANNEL_NATALIA_ID = IdInt (-1003), CHANNEL_MARIA_ID = IdInt (-1004),
      get_day_before_message = (\<lambda>b. ''tomorrow: '' @ day b),
      get_hour_before_message = (\<lambda>b. ''in an hour: '' @ day b),
      get_after_broadcast_message = (\<lambda>b. ''thanks: '' @ day b),
      MESSAGE_MARATHON_END = ''the end'',
      get_raffle_message = (\<lambda>ws. concat (map (\<lambda>w. case username w of Some u \<Rightarrow> ''@'' @ u @ '' '' | None \<Rightarrow> ''? '') ws))\<rparr>"

definition oksana_unset_config :: config where
  "oksana_unset_config = sample_config\<lparr>CHANNEL_OKSANA_ID := IdNone\<rparr>"

definition nobody_subscribed_env :: env where
  "nobody_subscribed_env = quiet_env\<lparr>member_result := (\<lambda>n c u. Status LEFT)\<rparr>"

definition third_lookup_fails_env :: env where
  "third_lookup_fails_env =
     quiet_env\<lparr>member_result := (\<lambda>n c u. if n = 2 then LookupRaised else Status MEMBER)\<rparr>"

text \<open>The recipients of every broadcast: the ids of the rows whose \<open>subscribed\<close> is 1.\<close>

definition registered_ids :: "world \<Rightarrow> int list" where
  "registered_ids w = map user_id (filter (\<lambda>r. subscribed r = 1) (users w))"

text \<open>A store with user 1 registered and user 2 only created by \<open>/start\<close>.\<close>

definition two_users_world :: world where
  "two_users_world =
     \<lparr>step = 0,
      users = [\<lparr>user_id = 1, username = Some ''anna'', first_name = Some ''Anna'',
                registered_at = (2025, 1, 1, 10, 0, 0), subscribed = 1\<rparr>,
               \<lparr>user_id = 2, username = None, first_name = Some ''Boris'',
                registered_at = (2025, 1, 2, 11, 30, 0), subscribed = 0\<rparr>],
      raffle_winners = [], trace = []\<rparr>"

text \<open>User 1 has blocked the bot: every send to that chat is rejected by the API.\<close>

definition user1_blocked_env :: env where
  "user1_blocked_env =
     quiet_env\<lparr>send_result := (\<lambda>n c t. if c = 1 then TelegramAPIError else SendOk)\<rparr>"

definition two_registered_world :: world where
  "two_registered_world =
     \<lparr>step = 0,
      users = [\<lparr>user_id = 1, username = Some ''anna'', first_name = Some ''Anna'',
                registered_at = (2025, 1, 1, 10, 0, 0), subscribed = 1\<rparr>,
               \<lparr>user_id = 2, username = Some ''boris'', first_name = Some ''Boris'',
                registered_at = (2025, 1, 2, 11, 30, 0), subscribed = 1\<rparr>],
      raffle_winners = [], trace = []\<rparr>"

text \<open>
  The broadcasts a tick can make: one of the three reminders of a broadcast, or the message
  at the end of the marathon; the date each is configured for, its text, and the
  reminders due at a time, in the order in which the tick goes through them.
\<close>

datatype reminder = DayBefore broadcast | HourBefore broadcast | After broadcast | MarathonEnd

fun reminder_date :: "config \<Rightarrow> reminder \<Rightarrow> time_tuple" where
  "reminder_date cfg (DayBefore b) = day_before_date b"
| "reminder_date cfg (HourBefore b) = hour_before_date b"
| "reminder_date cfg (After b) = after_date b"
| "reminder_date cfg MarathonEnd = MARATHON_END_DATE cfg"

fun reminder_message :: "config \<Rightarrow> reminder \<Rightarrow> string" where
  "reminder_message cfg (DayBefore b) = get_day_before_message cfg b"
| "reminder_message cfg (HourBefore b) = get_hour_before_message cfg b"
| "reminder_message cfg (After b) = get_after_broadcast_message cfg b"
| "reminder_message cfg MarathonEnd = MESSAGE_MARATHON_END cfg"

definition reminders_of :: "broadcast \<Rightarrow> reminder list" where
  "reminders_of b = [DayBefore b, HourBefore b, After b]"

definition due_reminders :: "config \<Rightarrow> time_tuple \<Rightarrow> reminder list" where
  "due_reminders cfg t =
     filter (\<lambda>r. reminder_date cfg r = t) (concat (map reminders_of (BROADCASTS cfg)) @ [MarathonEnd])"

text \<open>One fan-out for each reminder of a list, each announced in the log.\<close>

definition fan_out_reminders :: "env \<Rightarrow> config \<Rightarrow> int list \<Rightarrow> reminder list \<Rightarrow> world \<Rightarrow> world" where
  "fan_out_reminders e cfg uids rs w =
     foldl (\<lambda>w r. fanout e uids (reminder_message cfg r) (logger Info w)) w rs"

definition hour_before_env :: env where
  "hour_before_env = quiet_env\<lparr>clock := (\<lambda>n. (2025, 1, 10, 18, 0, 30))\<rparr>"

text \<open>The transport sends made between two worlds of one run.\<close>

definition sent_since :: "world \<Rightarrow> world \<Rightarrow> (int \<times> string) list" where
  "sent_since w w' = drop (length (sends (trace w))) (sends (trace w'))"

text \<open>
  The value of \<open>eligible_participants\<close> in a run of the raffle from \<open>w\<close>: the candidates
  read from the store that pass the subscription check made again.
\<close>

definition eligible_after_recheck :: "env \<Rightarrow> config \<Rightarrow> world \<Rightarrow> participant list" where
  "eligible_after_recheck e cfg w =
     (let (participants, w1) = get_eligible_raffle_participants e (logger Info w)
      in fst (recheck_participants e cfg participants (logger Info w1)))"

text \<open>The participant in a record of \<open>winners_data\<close>, and four eligible participants.\<close>

definition winner_participant :: "winner_data \<Rightarrow> participant" where
  "winner_participant wd = \<lparr>user_id = user_id wd, username = username wd, first_name = first_name wd\<rparr>"

definition four_eligible :: "participant list" where
  "four_eligible =
     [\<lparr>user_id = 11, username = Some ''anna'', first_name = Some ''Anna''\<rparr>,
      \<lparr>user_id = 12, username = Some ''boris'', first_name = None\<rparr>,
      \<lparr>user_id = 13, username = Some ''vera'', first_name = Some ''Vera''\<rparr>,
      \<lparr>user_id = 14, username = Some ''gleb'', first_name = Some ''Gleb''\<rparr>]"

text \<open>The world in which a raffle run from \<open>w\<close> draws its winners.\<close>

definition world_before_draw :: "env \<Rightarrow> config \<Rightarrow> world \<Rightarrow> world" where
  "world_before_draw e cfg w =
     (let (participants, w1) = get_eligible_raffle_participants e (logger Info w)
      in logger Info (snd (recheck_participants e cfg participants (logger Info w1))))"

text \<open>
  Three registered users with a username each, and a random module whose every draw names
  the second element of the pool.
\<close>

definition three_registered_world :: world where
  "three_registered_world =
     \<lparr>step = 0,
      users = [\<lparr>user_id = 1, username = Some ''anna'', first_name = Some ''Anna'',
                registered_at = (2025, 1, 1, 10, 0, 0), subscribed = 1\<rparr>,
               \<lparr>user_id = 2, username = Some ''boris'', first_name = Some ''Boris'',
                registered_at = (2025, 1, 2, 11, 30, 0), subscribed = 1\<rparr>,
               \<lparr>user_id = 3, username = Some ''vera'', first_name = None,
                registered_at = (2025, 1, 3, 9, 15, 0), subscribed = 1\<rparr>],
      raffle_winners = [], trace = []\<rparr>"

definition second_drawn_env :: env where
  "second_drawn_env = quiet_env\<lparr>random_draw := (\<lambda>n. 1)\<rparr>"

text \<open>The world in which a raffle run from \<open>w\<close> has drawn its winners and goes on to save them.\<close>

definition world_after_draw :: "env \<Rightarrow> config \<Rightarrow> world \<Rightarrow> world" where
  "world_after_draw e cfg w =
     snd (draw_winners e (eligible_after_recheck e cfg w) (world_before_draw e cfg w))"

text \<open>The callback query of the administrator's confirmation: a text preview in chat 1000.\<close>

definition admin_callback :: callback_query where
  "admin_callback = \<lparr>cb_chat_id = 1000, cb_message_text = Some ''preview'', cb_message_caption = None\<rparr>"

section \<open>Properties of the send primitive\<close>

lemma sends_append [simp]: "sends (xs @ ys) = sends xs @ sends ys"
  by (induction xs rule: sends.induct) auto

lemma sleeps_append [simp]: "sleeps (xs @ ys) = sleeps xs @ sleeps ys"
  by (induction xs rule: sleeps.induct) auto

lemma send_loop_done: "\<not> a < m \<Longrightarrow> send_loop e c t m a w = (False, w)"
  by (subst send_loop.simps) simp

lemma send_loop_ok:
  "a < m \<Longrightarrow> send_result e (step w) c t = SendOk \<Longrightarrow>
   send_loop e c t m a w = (True, interact (SendMessage c t SendOk) w)"
  by (subst send_loop.simps) simp

lemma send_loop_retry_after:
  "a < m \<Longrightarrow> send_result e (step w) c t = TelegramRetryAfter d \<Longrightarrow>
   send_loop e c t m a w =
     send_loop e c t m (a + 1)
       (sleep (of_int d) (logger Warning (interact (SendMessage c t (TelegramRetryAfter d)) w)))"
  by (subst send_loop.simps) simp

lemma send_loop_network_again:
  "a < m - 1 \<Longrightarrow> send_result e (step w) c t = TelegramNetworkError \<Longrightarrow>
   send_loop e c t m a w =
     send_loop e c t m (a + 1)
       (sleep (of_int ((a + 1) * 2)) (logger Warning (interact (SendMessage c t TelegramNetworkError) w)))"
  by (subst send_loop.simps) simp

lemma send_loop_network_last:
  "a < m \<Longrightarrow> \<not> a < m - 1 \<Longrightarrow> send_result e (step w) c t = TelegramNetworkError \<Longrightarrow>
   send_loop e c t m a w = (False, logger Error (interact (SendMessage c t TelegramNetworkError) w))"
  by (subst send_loop.simps) simp

lemma send_loop_rejected:
  "a < m \<Longrightarrow> send_result e (step w) c t = TelegramAPIError \<or> send_result e (step w) c t = OtherException \<Longrightarrow>
   send_loop e c t m a w = (False, logger Error (interact (SendMessage c t (send_result e (step w) c t)) w))"
  by (subst send_loop.simps) auto

lemma send_loop_network:
  assumes net: "\<forall>n. send_result e n c t = TelegramNetworkError"
  shows "a < m \<Longrightarrow> send_loop e c t m a w =
     (False, w\<lparr>step := step w + nat (m - a),
               trace := trace w @ concat (map (network_round c t) [a + 1..m - 1])
                          @ [SendMessage c t TelegramNetworkError, Log Error]\<rparr>)"
proof (induction "nat (m - a)" arbitrary: a w)
  case 0
  then show ?case by simp
next
  case (Suc k)
  show ?case
  proof (cases "a < m - 1")
    case True
    then have u: "[a + 1..m - 1] = (a + 1) # [a + 1 + 1..m - 1]"
      by (simp add: upto_rec1)
    have n: "Suc (step w + nat (m - (a + 1))) = step w + nat (m - a)"
      using True by linarith
    have k: "k = nat (m - (a + 1))" using Suc.hyps(2) by linarith
    have "send_loop e c t m a w = send_loop e c t m (a + 1)
       (sleep (of_int ((a + 1) * 2)) (logger Warning (interact (SendMessage c t TelegramNetworkError) w)))"
      using True net by (simp add: send_loop_network_again)
    also have "\<dots> = (False, w\<lparr>step := step w + nat (m - a),
               trace := trace w @ concat (map (network_round c t) [a + 1..m - 1])
                          @ [SendMessage c t TelegramNetworkError, Log Error]\<rparr>)"
      using True n by (subst Suc.hyps(1) [OF k]) (simp_all add: u interact_def logger_def sleep_def network_round_def)
    finally show ?thesis .
  next
    case False
    then have "[a + 1..m - 1] = []" by simp
    moreover have "nat (m - a) = 1" using False Suc.prems by linarith
    ultimately show ?thesis
      using False Suc.prems net by (simp add: send_loop_network_last interact_def logger_def)
  qed
qed

lemma sends_network_rounds: "sends (concat (map (network_round c t) is)) = replicate (length is) (c, t)"
  by (induction "is") (simp_all add: network_round_def)

lemma sleeps_network_rounds: "sleeps (concat (map (network_round c t) is)) = map (\<lambda>i. of_int (i * 2)) is"
  by (induction "is") (simp_all add: network_round_def)

lemma sends_network_failure_trace: "sends (network_failure_trace c t m) = replicate (nat m) (c, t)"
proof (cases "0 < m")
  case True
  then have "Suc (nat (m - 1)) = nat m" by linarith
  then have "replicate (nat (m - 1)) (c, t) @ [(c, t)] = replicate (nat m) (c, t)"
    by (metis replicate_Suc replicate_append_same)
  with True show ?thesis
    by (simp add: network_failure_trace_def sends_network_rounds)
next
  case False
  then show ?thesis by (simp add: network_failure_trace_def)
qed

lemma sleeps_network_failure_trace:
  "sleeps (network_failure_trace c t m) = map (\<lambda>i. of_int (i * 2)) [1..m - 1]"
  by (simp add: network_failure_trace_def sleeps_network_rounds)

lemma sum_list_upto: "sum_list (map f [i..j]) = sum f {i..j}"
  by (simp add: sum_list_distinct_conv_sum_set)

text \<open>
  Claim C5. When every attempt of \<open>safe_send_message\<close> fails with a network error, the
  primitive returns failure after exactly \<open>max_retries\<close> attempts; between consecutive
  attempts it sleeps 2, 4, ... (twice the number of the attempt just made), so the pauses
  add up to the sum of \<open>2 * i\<close> for \<open>i\<close> from 1 to \<open>max_retries - 1\<close>.
\<close>

theorem network_error_exhausts_max_retries:
  assumes "\<forall>n. send_result e n chat_id text = TelegramNetworkError"
  shows "safe_send_message e chat_id text max_retries w =
           (False, w\<lparr>step := step w + nat max_retries,
                     trace := trace w @ network_failure_trace chat_id text max_retries\<rparr>)
         \<and> sends (network_failure_trace chat_id text max_retries) = replicate (nat max_retries) (chat_id, text)
         \<and> sleeps (network_failure_trace chat_id text max_retries) = map (\<lambda>i. of_int (i * 2)) [1..max_retries - 1]
         \<and> sum_list (sleeps (network_failure_trace chat_id text max_retries)) = of_int (\<Sum>i = 1..max_retries - 1. 2 * i)"
proof -
  have run: "safe_send_message e chat_id text max_retries w =
           (False, w\<lparr>step := step w + nat max_retries,
                     trace := trace w @ network_failure_trace chat_id text max_retries\<rparr>)"
  proof (cases "0 < max_retries")
    case True
    with send_loop_network [OF assms, of 0 max_retries w] show ?thesis
      by (simp add: safe_send_message_def network_failure_trace_def)
  next
    case False
    then show ?thesis
      by (simp add: safe_send_message_def network_failure_trace_def send_loop_done)
  qed
  have "sum_list (map (\<lambda>i. rat_of_int (i * 2)) [1..max_retries - 1]) = of_int (\<Sum>i = 1..max_retries - 1. 2 * i)"
    by (simp add: sum_list_upto mult.commute)
  with run show ?thesis
    by (simp add: sends_network_failure_trace sleeps_network_failure_trace)
qed

theorem network_error_exhausts_max_retries_witness:
  "(\<forall>n. send_result network_down_env n 7 ''hi'' = TelegramNetworkError)
   \<and> safe_send_message network_down_env 7 ''hi'' 3 empty_world =
       (False, \<lparr>step = 3, users = [], raffle_winners = [],
                trace = [SendMessage 7 ''hi'' TelegramNetworkError, Log Warning, Sleep 2,
                         SendMessage 7 ''hi'' TelegramNetworkError, Log Warning, Sleep 4,
                         SendMessage 7 ''hi'' TelegramNetworkError, Log Error]\<rparr>)
   \<and> sum_list (sleeps (network_failure_trace 7 ''hi'' 3)) = 6"
proof -
  have h: "\<forall>n. send_result network_down_env n 7 ''hi'' = TelegramNetworkError"
    by (simp add: network_down_env_def quiet_env_def)
  have u: "[1..2::int] = [1, 2]" by (simp add: upto.simps)
  show ?thesis
    using h network_error_exhausts_max_retries [OF h, of 3 empty_world]
    by (simp add: network_failure_trace_def network_round_def empty_world_def u)
qed

lemma send_loop_rate_limited:
  "\<forall>i<length ds. send_result e (step w + i) c t = TelegramRetryAfter (ds ! i) \<Longrightarrow>
   a + int (length ds) \<le> m \<Longrightarrow>
   send_loop e c t m a w =
     send_loop e c t m (a + int (length ds))
       (w\<lparr>step := step w + length ds, trace := trace w @ concat (map (rate_limited_round c t) ds)\<rparr>)"
proof (induction ds arbitrary: a w)
  case Nil
  then show ?case by simp
next
  case (Cons d ds)
  let ?w1 = "sleep (of_int d) (logger Warning (interact (SendMessage c t (TelegramRetryAfter d)) w))"
  from Cons.prems(1) have first: "send_result e (step w) c t = TelegramRetryAfter d"
    by fastforce
  have rest: "\<forall>i<length ds. send_result e (step ?w1 + i) c t = TelegramRetryAfter (ds ! i)"
  proof (intro allI impI)
    fix i assume "i < length ds"
    with Cons.prems(1) have "send_result e (step w + Suc i) c t = TelegramRetryAfter ((d # ds) ! Suc i)"
      by (metis Suc_less_eq length_Cons)
    then show "send_result e (step ?w1 + i) c t = TelegramRetryAfter (ds ! i)"
      by (simp add: sleep_def logger_def interact_def)
  qed
  have "send_loop e c t m a w = send_loop e c t m (a + 1) ?w1"
    using Cons.prems(2) first by (simp add: send_loop_retry_after)
  also have "\<dots> = send_loop e c t m (a + 1 + int (length ds))
       (?w1\<lparr>step := step ?w1 + length ds, trace := trace ?w1 @ concat (map (rate_limited_round c t) ds)\<rparr>)"
    using Cons.prems(2) by (intro Cons.IH [OF rest]) simp
  finally show ?case
    by (simp add: sleep_def logger_def interact_def rate_limited_round_def [of c t d] add.assoc)
qed

text \<open>
  Claim C1, amended. After a rate-limited attempt the primitive sleeps exactly the duration
  the server named and tries again, but the attempt counts against \<open>max_retries\<close>: when
  every one of the \<open>max_retries\<close> attempts is rate limited the primitive returns failure
  (having slept after each of them), and when fewer are and the next attempt succeeds it
  returns success.
\<close>

theorem rate_limited_attempts_are_counted:
  assumes "\<forall>i<length ds. send_result e (step w + i) chat_id text = TelegramRetryAfter (ds ! i)"
  shows "(int (length ds) = max_retries \<longrightarrow>
            safe_send_message e chat_id text max_retries w =
              (False, w\<lparr>step := step w + length ds,
                        trace := trace w @ concat (map (rate_limited_round chat_id text) ds)\<rparr>))
       \<and> (int (length ds) < max_retries \<and> send_result e (step w + length ds) chat_id text = SendOk \<longrightarrow>
            safe_send_message e chat_id text max_retries w =
              (True, w\<lparr>step := Suc (step w + length ds),
                       trace := trace w @ concat (map (rate_limited_round chat_id text) ds)
                                  @ [SendMessage chat_id text SendOk]\<rparr>))"
proof (intro conjI impI)
  assume "int (length ds) = max_retries"
  with send_loop_rate_limited [OF assms, of 0 max_retries]
  show "safe_send_message e chat_id text max_retries w =
              (False, w\<lparr>step := step w + length ds,
                        trace := trace w @ concat (map (rate_limited_round chat_id text) ds)\<rparr>)"
    by (simp add: safe_send_message_def send_loop_done)
next
  assume a: "int (length ds) < max_retries \<and> send_result e (step w + length ds) chat_id text = SendOk"
  with send_loop_rate_limited [OF assms, of 0 max_retries]
  show "safe_send_message e chat_id text max_retries w =
              (True, w\<lparr>step := Suc (step w + length ds),
                       trace := trace w @ concat (map (rate_limited_round chat_id text) ds)
                                  @ [SendMessage chat_id text SendOk]\<rparr>)"
    by (simp add: safe_send_message_def send_loop_ok interact_def)
qed

theorem rate_limited_attempts_are_counted_witness:
  "send_result flood_env (step empty_world + 0) 7 ''hi'' = TelegramRetryAfter ([5, 5, 5] ! 0)
   \<and> send_result flood_env (step empty_world + 1) 7 ''hi'' = TelegramRetryAfter ([5, 5, 5] ! 1)
   \<and> send_result flood_env (step empty_world + 2) 7 ''hi'' = TelegramRetryAfter ([5, 5, 5] ! 2)
   \<and> safe_send_message flood_env 7 ''hi'' 3 empty_world =
       (False, \<lparr>step = 3, users = [], raffle_winners = [],
                trace = [SendMessage 7 ''hi'' (TelegramRetryAfter 5), Log Warning, Sleep 5,
                         SendMessage 7 ''hi'' (TelegramRetryAfter 5), Log Warning, Sleep 5,
                         SendMessage 7 ''hi'' (TelegramRetryAfter 5), Log Warning, Sleep 5]\<rparr>)"
proof -
  have h: "\<forall>i<length [5, 5, 5::int]. send_result flood_env (step empty_world + i) 7 ''hi'' = TelegramRetryAfter ([5, 5, 5] ! i)"
    by (simp add: flood_env_def quiet_env_def nth_Cons split: nat.split)
  show ?thesis
    using h rate_limited_attempts_are_counted [OF h, of 3]
    by (simp add: rate_limited_round_def empty_world_def flood_env_def quiet_env_def)
qed

text \<open>
  Claim C1 as stated fails: with the default budget of three attempts, three rate-limited
  answers in a row make the primitive return failure after three sends.
\<close>

theorem rate_limit_alone_fails_counterexample:
  "fst (safe_send_message flood_env 7 ''hi'' 3 empty_world) = False
   \<and> trace (snd (safe_send_message flood_env 7 ''hi'' 3 empty_world)) =
        [SendMessage 7 ''hi'' (TelegramRetryAfter 5), Log Warning, Sleep 5,
         SendMessage 7 ''hi'' (TelegramRetryAfter 5), Log Warning, Sleep 5,
         SendMessage 7 ''hi'' (TelegramRetryAfter 5), Log Warning, Sleep 5]"
  by (simp add: safe_send_message_def send_loop.simps flood_env_def quiet_env_def empty_world_def
        interact_def logger_def sleep_def Let_def)

section \<open>Properties of the subscription check\<close>

lemma lookups_append [simp]: "lookups (xs @ ys) = lookups xs @ lookups ys"
  by (induction xs rule: lookups.induct) auto
lemma log_levels_append [simp]: "log_levels (xs @ ys) = log_levels xs @ log_levels ys"
  by (induction xs rule: log_levels.induct) auto

lemma step_logger [simp]: "step (logger l w) = step w"
  and users_logger [simp]: "users (logger l w) = users w"
  and winners_logger [simp]: "raffle_winners (logger l w) = raffle_winners w"
  and trace_logger [simp]: "trace (logger l w) = trace w @ [Log l]"
  by (simp_all add: logger_def)

lemma step_sleep [simp]: "step (sleep d w) = step w"
  and users_sleep [simp]: "users (sleep d w) = users w"
  and winners_sleep [simp]: "raffle_winners (sleep d w) = raffle_winners w"
  and trace_sleep [simp]: "trace (sleep d w) = trace w @ [Sleep d]"
  by (simp_all add: sleep_def)

lemma step_interact [simp]: "step (interact ev w) = Suc (step w)"
  and users_interact [simp]: "users (interact ev w) = users w"
  and winners_interact [simp]: "raffle_winners (interact ev w) = raffle_winners w"
  and trace_interact [simp]: "trace (interact ev w) = trace w @ [ev]"
  by (simp_all add: interact_def)

lemma step_advance [simp]: "step (advance w) = Suc (step w)"
  and users_advance [simp]: "users (advance w) = users w"
  and winners_advance [simp]: "raffle_winners (advance w) = raffle_winners w"
  and trace_advance [simp]: "trace (advance w) = trace w"
  by (simp_all add: advance_def)

lemma is_subscribed_status_iff: "is_subscribed_status s \<longleftrightarrow> s = MEMBER \<or> s = ADMINISTRATOR \<or> s = CREATOR"
  by (auto simp: is_subscribed_status_def)

lemma check_channels_result:
  "fst (check_channels e uid cs w) =
     map (\<lambda>i. counts_as_subscribed (member_result e (step w + i) (cs ! i) uid)) [0..<length cs]
   \<and> step (snd (check_channels e uid cs w)) = step w + length cs
   \<and> users (snd (check_channels e uid cs w)) = users w
   \<and> raffle_winners (snd (check_channels e uid cs w)) = raffle_winners w
   \<and> lookups (trace (snd (check_channels e uid cs w))) = lookups (trace w) @ map (\<lambda>c. (c, uid)) cs
   \<and> sends (trace (snd (check_channels e uid cs w))) = sends (trace w)"
proof (induction cs arbitrary: w)
  case Nil
  show ?case by simp
next
  case (Cons c cs)
  show ?case
  proof (cases "member_result e (step w) c uid")
    case (Status s)
    with Cons [of "interact (GetChatMember c uid (Status s)) w"] show ?thesis
      by (simp add: map_upt_Suc counts_as_subscribed_def is_subscribed_status_iff case_prod_beta del: upt_Suc)
  next
    case LookupRaised
    with Cons [of "logger Error (interact (GetChatMember c uid LookupRaised) w)"] show ?thesis
      by (simp add: map_upt_Suc counts_as_subscribed_def case_prod_beta del: upt_Suc)
  qed
qed

text \<open>
  Claim C7. When at least one of the four configured channel ids is unset or empty,
  \<open>check_subscription\<close> returns \<open>True\<close> whatever the user is, without any membership
  lookup: all it does is emit one log entry of level warning.
\<close>

theorem unset_channel_id_bypasses_check:
  assumes "\<exists>c \<in> set (channel_ids cfg). \<not> truthy c"
  shows "check_subscription e cfg uid w = (True, w\<lparr>trace := trace w @ [Log Warning]\<rparr>)"
  using assms by (auto simp: check_subscription_def list_all_iff logger_def)

theorem unset_channel_id_bypasses_check_witness:
  "\<not> truthy (channel_ids oksana_unset_config ! 1)
   \<and> check_subscription nobody_subscribed_env oksana_unset_config 7 empty_world =
       (True, \<lparr>step = 0, users = [], raffle_winners = [], trace = [Log Warning]\<rparr>)"
proof -
  have h: "\<exists>c \<in> set (channel_ids oksana_unset_config). \<not> truthy c"
    by (simp add: channel_ids_def oksana_unset_config_def sample_config_def)
  show ?thesis
    using unset_channel_id_bypasses_check [OF h, of nobody_subscribed_env 7 empty_world]
    by (simp add: channel_ids_def oksana_unset_config_def sample_config_def empty_world_def)
qed

text \<open>
  Claim C6. When all four channel ids are configured, the verdict of
  \<open>check_subscription\<close> is the conjunction over the four channels of "the lookup returned
  member, administrator or creator"; a lookup that raises counts as not subscribed, all four
  channels are looked up in order whatever the earlier lookups gave, and so one raising
  lookup makes the verdict false.
\<close>

theorem subscription_is_conjunction_fail_closed:
  assumes "\<forall>c \<in> set (channel_ids cfg). truthy c"
  shows "fst (check_subscription e cfg uid w) =
           (\<forall>i<4. counts_as_subscribed (member_result e (step w + i) (channel_ids cfg ! i) uid))
         \<and> lookups (trace (snd (check_subscription e cfg uid w))) =
             lookups (trace w) @ map (\<lambda>c. (c, uid)) (channel_ids cfg)
         \<and> ((\<exists>i<4. member_result e (step w + i) (channel_ids cfg ! i) uid = LookupRaised) \<longrightarrow>
              fst (check_subscription e cfg uid w) = False)"
proof -
  have len: "length (channel_ids cfg) = 4" by (simp add: channel_ids_def)
  have conj: "list_all (\<lambda>b. b) (map f [0..<4]) = (\<forall>i<4. f i)" for f :: "nat \<Rightarrow> bool"
    by (auto simp: list_all_iff)
  have "fst (check_channels e uid (channel_ids cfg) w) =
     map (\<lambda>i. counts_as_subscribed (member_result e (step w + i) (channel_ids cfg ! i) uid)) [0..<4]"
    using check_channels_result [of e uid "channel_ids cfg" w] by (simp only: len)
  then have r: "fst (check_subscription e cfg uid w) =
           (\<forall>i<4. counts_as_subscribed (member_result e (step w + i) (channel_ids cfg ! i) uid))"
    using assms by (simp add: check_subscription_def list_all_iff [of truthy] case_prod_beta conj
        del: upt_Suc)
  have l: "lookups (trace (snd (check_subscription e cfg uid w))) =
             lookups (trace w) @ map (\<lambda>c. (c, uid)) (channel_ids cfg)"
    using assms check_channels_result [of e uid "channel_ids cfg" w]
    by (simp add: check_subscription_def list_all_iff case_prod_beta)
  have "\<not> counts_as_subscribed LookupRaised" by (simp add: counts_as_subscribed_def)
  with r l show ?thesis by metis
qed

theorem subscription_is_conjunction_fail_closed_witness:
  "truthy (CHANNEL_MAIN_ID sample_config) \<and> truthy (CHANNEL_OKSANA_ID sample_config)
   \<and> truthy (CHANNEL_NATALIA_ID sample_config) \<and> truthy (CHANNEL_MARIA_ID sample_config)
   \<and> member_result third_lookup_fails_env 0 (IdInt (-1001)) 7 = Status MEMBER
   \<and> member_result third_lookup_fails_env 1 (IdInt (-1002)) 7 = Status MEMBER
   \<and> member_result third_lookup_fails_env 2 (IdInt (-1003)) 7 = LookupRaised
   \<and> member_result third_lookup_fails_env 3 (IdInt (-1004)) 7 = Status MEMBER
   \<and> fst (check_subscription third_lookup_fails_env sample_config 7 empty_world) = False
   \<and> lookups (trace (snd (check_subscription third_lookup_fails_env sample_config 7 empty_world))) =
        [(IdInt (-1001), 7), (IdInt (-1002), 7), (IdInt (-1003), 7), (IdInt (-1004), 7)]"
proof -
  have ids: "channel_ids sample_config = [IdInt (-1001), IdInt (-1002), IdInt (-1003), IdInt (-1004)]"
    by (simp add: channel_ids_def sample_config_def)
  have tr: "trace empty_world = []" and st: "step empty_world = 0"
    by (simp_all add: empty_world_def)
  have h: "\<forall>c \<in> set (channel_ids sample_config). truthy c"
    by (simp add: ids)
  have ex: "\<exists>i<4. member_result third_lookup_fails_env (step empty_world + i)
          (channel_ids sample_config ! i) 7 = LookupRaised"
    by (rule exI [of _ 2]) (simp add: third_lookup_fails_env_def quiet_env_def st)
  note res = subscription_is_conjunction_fail_closed [OF h, of third_lookup_fails_env 7 empty_world]
  from res ex have f: "fst (check_subscription third_lookup_fails_env sample_config 7 empty_world) = False"
    by blast
  from res have l: "lookups (trace (snd (check_subscription third_lookup_fails_env sample_config 7 empty_world))) =
        [(IdInt (-1001), 7), (IdInt (-1002), 7), (IdInt (-1003), 7), (IdInt (-1004), 7)]"
    unfolding ids tr by simp
  have c: "truthy (CHANNEL_MAIN_ID sample_config) \<and> truthy (CHANNEL_OKSANA_ID sample_config)
   \<and> truthy (CHANNEL_NATALIA_ID sample_config) \<and> truthy (CHANNEL_MARIA_ID sample_config)"
    by (simp add: sample_config_def)
  have m: "member_result third_lookup_fails_env 0 (IdInt (-1001)) 7 = Status MEMBER
   \<and> member_result third_lookup_fails_env 1 (IdInt (-1002)) 7 = Status MEMBER
   \<and> member_result third_lookup_fails_env 2 (IdInt (-1003)) 7 = LookupRaised
   \<and> member_result third_lookup_fails_env 3 (IdInt (-1004)) 7 = Status MEMBER"
    by (simp add: third_lookup_fails_env_def quiet_env_def)
  from c m f l show ?thesis by blast
qed

section \<open>Properties of the store\<close>

text \<open>
  Claim C10. \<open>add_user\<close> with an id that is already in the table \<open>users\<close> changes at most
  the \<open>username\<close> and \<open>first_name\<close> of the rows with that id: every row keeps its id, its
  \<open>subscribed\<close> flag and its \<open>registered_at\<close>, every other row and the table of winners are
  as before, and so the registered users are the same before and after.
\<close>

theorem add_user_existing_keeps_registration:
  assumes "\<exists>r \<in> set (users w). user_id r = uid"
  shows "users (add_user e uid un fn w) =
           map (\<lambda>r. if user_id r = uid \<and> \<not> db_raises e (step w)
                     then r\<lparr>username := un, first_name := fn\<rparr> else r) (users w)
         \<and> map user_id (users (add_user e uid un fn w)) = map user_id (users w)
         \<and> map subscribed (users (add_user e uid un fn w)) = map subscribed (users w)
         \<and> map registered_at (users (add_user e uid un fn w)) = map registered_at (users w)
         \<and> raffle_winners (add_user e uid un fn w) = raffle_winners w
         \<and> registered_ids (add_user e uid un fn w) = registered_ids w"
proof -
  let ?f = "\<lambda>r. if user_id r = uid \<and> \<not> db_raises e (step w)
                     then r\<lparr>username := un, first_name := fn\<rparr> else r"
  from assms have ex: "list_ex (\<lambda>r. user_id r = uid) (users w)"
    by (simp add: list_ex_iff)
  have u: "users (add_user e uid un fn w) = map ?f (users w)"
    using ex by (simp add: add_user_def Let_def)
  have w: "raffle_winners (add_user e uid un fn w) = raffle_winners w"
    by (simp add: add_user_def Let_def)
  have f: "user_id (?f r) = user_id r" "subscribed (?f r) = subscribed r"
          "registered_at (?f r) = registered_at r" for r
    by simp_all
  have "map user_id (filter (\<lambda>r. subscribed r = 1) (map ?f xs)) =
          map user_id (filter (\<lambda>r. subscribed r = 1) xs)" for xs
    by (induction xs) simp_all
  then have "registered_ids (add_user e uid un fn w) = registered_ids w"
    by (simp only: registered_ids_def u)
  with u w show ?thesis
    by (simp add: o_def)
qed

theorem add_user_existing_keeps_registration_witness:
  "user_id (users two_users_world ! 0) = 1
   \<and> users (add_user quiet_env 1 (Some ''anya'') None two_users_world) =
       [\<lparr>user_id = 1, username = Some ''anya'', first_name = None,
          registered_at = (2025, 1, 1, 10, 0, 0), subscribed = 1\<rparr>,
        \<lparr>user_id = 2, username = None, first_name = Some ''Boris'',
          registered_at = (2025, 1, 2, 11, 30, 0), subscribed = 0\<rparr>]
   \<and> registered_ids (add_user quiet_env 1 (Some ''anya'') None two_users_world) = [1]"
proof -
  have h: "\<exists>r \<in> set (users two_users_world). user_id r = 1"
    by (simp add: two_users_world_def)
  have r: "registered_ids two_users_world = [1]"
    by (simp add: registered_ids_def two_users_world_def)
  from add_user_existing_keeps_registration [OF h, of quiet_env "Some ''anya''" None] r
  show ?thesis
    by (simp add: two_users_world_def quiet_env_def)
qed

section \<open>Properties of the fan-out\<close>

lemma safe_send_message_rejected:
  "send_result e (step w) c t = TelegramAPIError \<Longrightarrow>
   safe_send_message e c t 3 w = (False, logger Error (interact (SendMessage c t TelegramAPIError) w))"
  by (simp add: safe_send_message_def send_loop_rejected)

lemma safe_send_message_ok:
  "send_result e (step w) c t = SendOk \<Longrightarrow>
   safe_send_message e c t 3 w = (True, interact (SendMessage c t SendOk) w)"
  by (simp add: safe_send_message_def send_loop_ok)

text \<open>
  The scheduler's fan-out pauses after every recipient, whatever the send returned: with
  user 1 blocked, the pause stands between the failed send to user 1 and the send to user 2.
\<close>

lemma scheduler_fanout_paces_after_failure:
  "trace (fanout user1_blocked_env [1, 2] ''news'' two_registered_world) =
     [SendMessage 1 ''news'' TelegramAPIError, Log Error, Sleep (1 / 20),
      SendMessage 2 ''news'' SendOk, Sleep (1 / 20)]"
  by (simp add: safe_send_message_rejected safe_send_message_ok user1_blocked_env_def quiet_env_def
        two_registered_world_def)

text \<open>
  Claim C8 fails on the admin broadcast. The recipients are taken in order and a failed send
  does not stop the loop, but the pause of 50 ms stands inside the \<open>try\<close> block after the
  send: when the send to user 1 raises, the loop goes on to user 2 with no pause in between.
\<close>

theorem admin_broadcast_skips_pause_after_failure:
  "confirm_send_callback user1_blocked_env \<lparr>md_text = ''news'', md_photo = None\<rparr> two_registered_world =
     ((1, 1),
      two_registered_world\<lparr>step := 3,
        trace := [Log Info, SendMessage 1 ''news'' TelegramAPIError, Log Error,
                  SendMessage 2 ''news'' SendOk, Sleep (1 / 20)]\<rparr>)"
  by (simp add: confirm_send_callback_def get_all_registered_users_def user1_blocked_env_def
        quiet_env_def two_registered_world_def interact_def logger_def sleep_def advance_def)

section \<open>Properties of the scheduler tick\<close>

lemma fan_out_reminders_append:
  "fan_out_reminders e cfg uids (rs @ rs') w = fan_out_reminders e cfg uids rs' (fan_out_reminders e cfg uids rs w)"
  by (simp add: fan_out_reminders_def)

lemma send_broadcast_reminders_due:
  "send_broadcast_reminders e cfg t uids w b =
     fan_out_reminders e cfg uids (filter (\<lambda>r. reminder_date cfg r = t) (reminders_of b)) w"
  by (simp add: send_broadcast_reminders_def fan_out_reminders_def reminders_of_def)

lemma broadcast_loop_due:
  "foldl (send_broadcast_reminders e cfg t uids) w bs =
     fan_out_reminders e cfg uids (filter (\<lambda>r. reminder_date cfg r = t) (concat (map reminders_of bs))) w"
proof (induction bs arbitrary: w)
  case Nil
  show ?case by (simp add: fan_out_reminders_def)
next
  case (Cons b bs)
  have "foldl (send_broadcast_reminders e cfg t uids) w (b # bs) =
          foldl (send_broadcast_reminders e cfg t uids) (send_broadcast_reminders e cfg t uids w b) bs"
    by simp
  also have "\<dots> = fan_out_reminders e cfg uids
       (filter (\<lambda>r. reminder_date cfg r = t) (concat (map reminders_of bs)))
       (send_broadcast_reminders e cfg t uids w b)"
    by (rule Cons)
  also have "\<dots> = fan_out_reminders e cfg uids
       (filter (\<lambda>r. reminder_date cfg r = t) (concat (map reminders_of (b # bs)))) w"
    by (simp add: send_broadcast_reminders_due fan_out_reminders_append)
  finally show ?case .
qed

lemma tick_fans_out_due_reminders:
  "check_and_send_reminders e cfg w =
     (let t = now_tuple (clock e (step w));
          (uids, w1) = get_all_registered_users e (advance w)
      in if uids = [] then logger Debug w1
         else fan_out_reminders e cfg uids (due_reminders cfg t) (logger Info w1))"
  by (simp add: check_and_send_reminders_def Let_def broadcast_loop_due due_reminders_def
        fan_out_reminders_append case_prod_beta)
     (simp add: fan_out_reminders_def)

lemma count_hour_before:
  "count_list (filter (\<lambda>r. reminder_date cfg r = t) (concat (map reminders_of bs))) (HourBefore b) =
     count_list (filter (\<lambda>b'. hour_before_date b' = t) bs) b"
  by (induction bs) (auto simp: reminders_of_def)

text \<open>
  Claim C2. A tick whose \<open>current_time\<close> is the \<open>hour_before\<close> date of exactly one broadcast
  \<open>b\<close> makes, for the registered users it read (none when there is none), one fan-out for
  each due reminder in turn, and nothing else; among the due reminders the hour-before
  reminder of \<open>b\<close> occurs exactly once, no hour-before reminder of another broadcast occurs,
  and every reminder that occurs is configured for \<open>current_time\<close>: a reminder whose date
  does not match is not fanned out.
\<close>

theorem hour_before_match_fans_out_once:
  assumes "filter (\<lambda>b'. hour_before_date b' = now_tuple (clock e (step w))) (BROADCASTS cfg) = [b]"
  shows "check_and_send_reminders e cfg w =
           (let (uids, w1) = get_all_registered_users e (advance w)
            in if uids = [] then logger Debug w1
               else fan_out_reminders e cfg uids (due_reminders cfg (now_tuple (clock e (step w))))
                      (logger Info w1))
         \<and> count_list (due_reminders cfg (now_tuple (clock e (step w)))) (HourBefore b) = 1
         \<and> (\<forall>b'. b' \<noteq> b \<longrightarrow> HourBefore b' \<notin> set (due_reminders cfg (now_tuple (clock e (step w)))))
         \<and> (\<forall>r \<in> set (due_reminders cfg (now_tuple (clock e (step w)))).
               reminder_date cfg r = now_tuple (clock e (step w)))"
proof -
  let ?t = "now_tuple (clock e (step w))"
  have c: "count_list (due_reminders cfg ?t) (HourBefore b') =
             count_list (filter (\<lambda>b'. hour_before_date b' = ?t) (BROADCASTS cfg)) b'" for b'
    by (simp add: due_reminders_def count_hour_before)
  have one: "count_list (due_reminders cfg ?t) (HourBefore b) = 1"
    by (simp add: c assms)
  have other: "HourBefore b' \<notin> set (due_reminders cfg ?t)" if "b' \<noteq> b" for b'
  proof -
    have "count_list (due_reminders cfg ?t) (HourBefore b') = 0"
      using that by (simp add: c assms)
    then show ?thesis by (simp add: count_list_0_iff)
  qed
  have match: "\<forall>r \<in> set (due_reminders cfg ?t). reminder_date cfg r = ?t"
    by (simp add: due_reminders_def)
  from one other match tick_fans_out_due_reminders [of e cfg w] show ?thesis
    by (simp add: Let_def)
qed

theorem hour_before_match_fans_out_once_witness:
  "filter (\<lambda>b'. hour_before_date b' = now_tuple (clock hour_before_env (step two_registered_world)))
      (BROADCASTS sample_config) = [BROADCASTS sample_config ! 0]
   \<and> count_list (due_reminders sample_config (2025, 1, 10, 18, 0)) (HourBefore (BROADCASTS sample_config ! 0)) = 1
   \<and> due_reminders sample_config (2025, 1, 10, 18, 0) = [HourBefore (BROADCASTS sample_config ! 0)]
   \<and> trace (check_and_send_reminders hour_before_env sample_config two_registered_world) =
        [Log Info, Log Info, Log Info,
         SendMessage 1 ''in an hour: day 1'' SendOk, Sleep (1 / 20),
         SendMessage 2 ''in an hour: day 1'' SendOk, Sleep (1 / 20)]"
proof -
  have t: "now_tuple (clock hour_before_env (step two_registered_world)) = (2025, 1, 10, 18, 0)"
    by (simp add: now_tuple_def hour_before_env_def)
  have h: "filter (\<lambda>b'. hour_before_date b' = now_tuple (clock hour_before_env (step two_registered_world)))
      (BROADCASTS sample_config) = [BROADCASTS sample_config ! 0]"
    by (simp add: t sample_config_def)
  have d: "due_reminders sample_config (2025, 1, 10, 18, 0) = [HourBefore (BROADCASTS sample_config ! 0)]"
    by (simp add: due_reminders_def reminders_of_def sample_config_def)
  have u: "get_all_registered_users hour_before_env (advance two_registered_world) =
             ([1, 2], logger Info (advance (advance two_registered_world)))"
    by (simp add: get_all_registered_users_def hour_before_env_def quiet_env_def two_registered_world_def advance_def)
  have s: "send_result hour_before_env n c m = SendOk" for n c m
    by (simp add: hour_before_env_def quiet_env_def)
  have m: "get_hour_before_message sample_config (BROADCASTS sample_config ! 0) = ''in an hour: day 1''"
    by (simp add: sample_config_def)
  note res = hour_before_match_fans_out_once [OF h]
  from res have c: "count_list (due_reminders sample_config (2025, 1, 10, 18, 0)) (HourBefore (BROADCASTS sample_config ! 0)) = 1"
    unfolding t by blast
  from res have "check_and_send_reminders hour_before_env sample_config two_registered_world =
      fan_out_reminders hour_before_env sample_config [1, 2] [HourBefore (BROADCASTS sample_config ! 0)]
        (logger Info (logger Info (advance (advance two_registered_world))))"
    unfolding t d u by simp
  then have tr: "trace (check_and_send_reminders hour_before_env sample_config two_registered_world) =
        [Log Info, Log Info, Log Info,
         SendMessage 1 ''in an hour: day 1'' SendOk, Sleep (1 / 20),
         SendMessage 2 ''in an hour: day 1'' SendOk, Sleep (1 / 20)]"
    by (simp add: fan_out_reminders_def m safe_send_message_ok s two_registered_world_def)
  from h c d tr show ?thesis by blast
qed

section \<open>What the operations leave alone\<close>

lemma sent_since_append: "sends (trace w') = sends (trace w) @ xs \<Longrightarrow> sent_since w w' = xs"
  by (simp add: sent_since_def)

lemma step_advance_by [simp]: "step (advance_by k w) = step w + k"
  and users_advance_by [simp]: "users (advance_by k w) = users w"
  and winners_advance_by [simp]: "raffle_winners (advance_by k w) = raffle_winners w"
  and trace_advance_by [simp]: "trace (advance_by k w) = trace w"
  by (simp_all add: advance_by_def)

lemma send_loop_frame:
  "users (snd (send_loop e c t m a w)) = users w
   \<and> raffle_winners (snd (send_loop e c t m a w)) = raffle_winners w
   \<and> (\<exists>n. (a < m \<longrightarrow> 0 < n) \<and> sends (trace (snd (send_loop e c t m a w))) = sends (trace w) @ replicate n (c, t))"
proof (induction "nat (m - a)" arbitrary: a w)
  case 0
  then have "\<not> a < m" by simp
  then show ?case by (simp add: send_loop_done)
next
  case (Suc k)
  then have lt: "a < m" and k: "k = nat (m - (a + 1))" by linarith+
  have again: ?case
    if eq: "send_loop e c t m a w = send_loop e c t m (a + 1) w1"
      and u: "users w1 = users w" and r: "raffle_winners w1 = raffle_winners w"
      and s: "sends (trace w1) = sends (trace w) @ [(c, t)]" for w1
  proof -
    from Suc.hyps(1) [OF k, of w1] obtain n where
      "users (snd (send_loop e c t m (a + 1) w1)) = users w1"
      "raffle_winners (snd (send_loop e c t m (a + 1) w1)) = raffle_winners w1"
      "sends (trace (snd (send_loop e c t m (a + 1) w1))) = sends (trace w1) @ replicate n (c, t)"
      by blast
    with eq u r s have
      "users (snd (send_loop e c t m a w)) = users w"
      "raffle_winners (snd (send_loop e c t m a w)) = raffle_winners w"
      "sends (trace (snd (send_loop e c t m a w))) = sends (trace w) @ replicate (Suc n) (c, t)"
      by simp_all
    then show ?thesis by blast
  qed
  have stop: ?case
    if eq: "send_loop e c t m a w = (b, w1)"
      and u: "users w1 = users w" and r: "raffle_winners w1 = raffle_winners w"
      and s: "sends (trace w1) = sends (trace w) @ [(c, t)]" for b w1
  proof -
    from eq u r s have "sends (trace (snd (send_loop e c t m a w))) = sends (trace w) @ replicate 1 (c, t)"
      by simp
    with eq u r show ?thesis by (metis less_numeral_extra(1) snd_conv)
  qed
  show ?case
  proof (cases "send_result e (step w) c t")
    case SendOk
    with lt show ?thesis by (intro stop [OF send_loop_ok]) simp_all
  next
    case (TelegramRetryAfter d)
    with lt show ?thesis by (intro again [OF send_loop_retry_after]) simp_all
  next
    case TelegramNetworkError
    show ?thesis
    proof (cases "a < m - 1")
      case True
      with TelegramNetworkError show ?thesis by (intro again [OF send_loop_network_again]) simp_all
    next
      case False
      with lt TelegramNetworkError show ?thesis by (intro stop [OF send_loop_network_last]) simp_all
    qed
  next
    case TelegramAPIError
    with lt show ?thesis by (intro stop [OF send_loop_rejected]) simp_all
  next
    case OtherException
    with lt show ?thesis by (intro stop [OF send_loop_rejected]) simp_all
  qed
qed

lemma fanout_frame:
  "users (fanout e uids m w) = users w
   \<and> raffle_winners (fanout e uids m w) = raffle_winners w
   \<and> (\<exists>xs. sends (trace (fanout e uids m w)) = sends (trace w) @ xs \<and> set xs = (\<lambda>u. (u, m)) ` set uids)"
proof (induction uids arbitrary: w)
  case Nil
  show ?case by simp
next
  case (Cons u uids)
  let ?w1 = "sleep (1 / 20) (snd (safe_send_message e u m 3 w))"
  from send_loop_frame [of e u m 3 0 w] obtain n where n: "0 < n"
    and 1: "users ?w1 = users w" "raffle_winners ?w1 = raffle_winners w"
      "sends (trace ?w1) = sends (trace w) @ replicate n (u, m)"
    by (auto simp: safe_send_message_def)
  from Cons [of ?w1] obtain xs where
    2: "users (fanout e uids m ?w1) = users ?w1" "raffle_winners (fanout e uids m ?w1) = raffle_winners ?w1"
      "sends (trace (fanout e uids m ?w1)) = sends (trace ?w1) @ xs" "set xs = (\<lambda>u. (u, m)) ` set uids"
    by blast
  from n have "set (replicate n (u, m) @ xs) = insert (u, m) (set xs)" by auto
  with 1 2 have "sends (trace (fanout e (u # uids) m w)) = sends (trace w) @ (replicate n (u, m) @ xs)
      \<and> set (replicate n (u, m) @ xs) = (\<lambda>u. (u, m)) ` set (u # uids)"
    by simp
  moreover from 1 2 have "users (fanout e (u # uids) m w) = users w"
    "raffle_winners (fanout e (u # uids) m w) = raffle_winners w" by simp_all
  ultimately show ?case by blast
qed

lemma fanout_recipients: "fst ` set (sent_since w (fanout e uids m w)) = set uids"
proof -
  from fanout_frame [of e uids m w] obtain xs where
    "sends (trace (fanout e uids m w)) = sends (trace w) @ xs" "set xs = (\<lambda>u. (u, m)) ` set uids"
    by blast
  then show ?thesis by (force simp: sent_since_append image_image)
qed

lemma admin_send_loop_frame:
  "users (snd (admin_send_loop e md uids counts w)) = users w
   \<and> raffle_winners (snd (admin_send_loop e md uids counts w)) = raffle_winners w
   \<and> sends (trace (snd (admin_send_loop e md uids counts w))) = sends (trace w) @ map (\<lambda>u. (u, md_text md)) uids"
proof (induction uids arbitrary: counts w)
  case Nil
  show ?case by simp
next
  case (Cons u uids)
  obtain sc ec where c: "counts = (sc, ec)" by (cases counts)
  show ?case
    unfolding c
    by (simp add: Cons Let_def split: option.split)
qed

section \<open>Properties of the raffle\<close>

lemma check_subscription_frame:
  "users (snd (check_subscription e cfg uid w)) = users w
   \<and> raffle_winners (snd (check_subscription e cfg uid w)) = raffle_winners w
   \<and> sends (trace (snd (check_subscription e cfg uid w))) = sends (trace w)"
  using check_channels_result [of e uid "channel_ids cfg" w]
  by (simp add: check_subscription_def case_prod_beta)

lemma update_user_subscription_status_frame:
  "raffle_winners (update_user_subscription_status e uid b w) = raffle_winners w
   \<and> sends (trace (update_user_subscription_status e uid b w)) = sends (trace w)
   \<and> set (registered_ids (update_user_subscription_status e uid b w)) \<subseteq> insert uid (set (registered_ids w))"
  by (auto simp: update_user_subscription_status_def registered_ids_def)

lemma recheck_participants_frame:
  "raffle_winners (snd (recheck_participants e cfg ps w)) = raffle_winners w
   \<and> sends (trace (snd (recheck_participants e cfg ps w))) = sends (trace w)
   \<and> set (registered_ids (snd (recheck_participants e cfg ps w))) \<subseteq> set (registered_ids w) \<union> user_id ` set ps"
proof (induction ps arbitrary: w)
  case Nil
  show ?case by simp
next
  case (Cons p ps)
  show ?case
  proof (cases "username p = None \<or> username p = Some []")
    case True
    with Cons [of "logger Debug w"] show ?thesis
      by (auto simp: registered_ids_def)
  next
    case False
    let ?c = "check_subscription e cfg (user_id p) w"
    let ?w2 = "update_user_subscription_status e (user_id p) (fst ?c) (snd ?c)"
    have w2: "raffle_winners ?w2 = raffle_winners w" "sends (trace ?w2) = sends (trace w)"
      "set (registered_ids ?w2) \<subseteq> insert (user_id p) (set (registered_ids w))"
      using update_user_subscription_status_frame [of e "user_id p" "fst ?c" "snd ?c"]
        check_subscription_frame [of e cfg "user_id p" w]
      by (simp_all add: registered_ids_def)
    show ?thesis
    proof (cases "fst ?c")
      case True
      with False have "snd (recheck_participants e cfg (p # ps) w) = snd (recheck_participants e cfg ps ?w2)"
        by (auto simp: case_prod_beta Let_def)
      with Cons [of ?w2] w2 show ?thesis by auto
    next
      case f: False
      with False have "snd (recheck_participants e cfg (p # ps) w) =
          snd (recheck_participants e cfg ps (logger Debug ?w2))"
        by (auto simp: case_prod_beta Let_def)
      moreover have "registered_ids (logger Debug ?w2) = registered_ids ?w2"
        by (simp add: registered_ids_def)
      ultimately show ?thesis using Cons [of "logger Debug ?w2"] w2 by auto
    qed
  qed
qed

lemma get_eligible_raffle_participants_frame:
  "users (snd (get_eligible_raffle_participants e w)) = users w
   \<and> raffle_winners (snd (get_eligible_raffle_participants e w)) = raffle_winners w
   \<and> sends (trace (snd (get_eligible_raffle_participants e w))) = sends (trace w)
   \<and> user_id ` set (fst (get_eligible_raffle_participants e w)) \<subseteq> set (registered_ids w)"
  by (auto simp: get_eligible_raffle_participants_def registered_ids_def)

lemma get_all_registered_users_frame:
  "users (snd (get_all_registered_users e w)) = users w
   \<and> raffle_winners (snd (get_all_registered_users e w)) = raffle_winners w
   \<and> sends (trace (snd (get_all_registered_users e w))) = sends (trace w)
   \<and> fst (get_all_registered_users e w) = (if db_raises e (step w) then [] else registered_ids w)"
  by (simp add: get_all_registered_users_def registered_ids_def)

lemma winners_loop_frame:
  "users (snd (winners_loop ws n i acc w)) = users w
   \<and> raffle_winners (snd (winners_loop ws n i acc w)) = raffle_winners w
   \<and> sends (trace (snd (winners_loop ws n i acc w))) = sends (trace w)"
proof (induction "n - i" arbitrary: i acc w)
  case 0
  then show ?case by (subst winners_loop.simps, subst winners_loop.simps, subst winners_loop.simps) simp
next
  case (Suc k)
  then have k: "k = n - Suc i" by simp
  show ?case
    using Suc.hyps(1) [OF k]
    by (subst winners_loop.simps, subst winners_loop.simps, subst winners_loop.simps) (simp add: Let_def)
qed

lemma draw_winners_frame:
  "users (snd (draw_winners e el w)) = users w
   \<and> raffle_winners (snd (draw_winners e el w)) = raffle_winners w
   \<and> sends (trace (snd (draw_winners e el w))) = sends (trace w)"
  using winners_loop_frame
  by (simp add: draw_winners_def select_winners_def random_sample_def random_shuffle_def Let_def
        split: prod.split option.split)

lemma save_raffle_winners_frame:
  "users (snd (save_raffle_winners e wd w)) = users w
   \<and> sends (trace (snd (save_raffle_winners e wd w))) = sends (trace w)
   \<and> (fst (save_raffle_winners e wd w) \<longrightarrow> raffle_winners (snd (save_raffle_winners e wd w)) = raffle_winners w)"
  by (simp add: save_raffle_winners_def)


lemma registered_ids_cong: "users w' = users w \<Longrightarrow> registered_ids w' = registered_ids w"
  by (simp add: registered_ids_def)

lemma sent_since_nothing: "sends (trace w') = sends (trace w) \<Longrightarrow> sent_since w w' = []"
  by (simp add: sent_since_def)

text \<open>
  However the raffle ends, its sends are either none or one fan-out to the users registered
  in the store it leaves, and it registers nobody.
\<close>

lemma conduct_raffle_outcome:
  "(sends (trace (conduct_raffle e cfg w)) = sends (trace w)
    \<or> (\<exists>xs. sends (trace (conduct_raffle e cfg w)) = sends (trace w) @ xs
             \<and> fst ` set xs = set (registered_ids (conduct_raffle e cfg w))))
   \<and> set (registered_ids (conduct_raffle e cfg w)) \<subseteq> set (registered_ids w)
   \<and> (eligible_after_recheck e cfg w = [] \<longrightarrow>
        raffle_winners (conduct_raffle e cfg w) = raffle_winners w
        \<and> sends (trace (conduct_raffle e cfg w)) = sends (trace w))"
proof -
  define P where "P = get_eligible_raffle_participants e (logger Info w)"
  define R where "R = recheck_participants e cfg (fst P) (logger Info (snd P))"
  define w3 where "w3 = logger Info (snd R)"
  define D where "D = draw_winners e (fst R) w3"
  define S where "S = save_raffle_winners e (the (fst D)) (snd D)"
  define G where "G = get_all_registered_users e (logger Info (snd S))"
  define w7 where "w7 = fanout e (fst G) (get_raffle_message cfg (the (fst D))) (logger Info (snd G))"
  have el: "eligible_after_recheck e cfg w = fst R"
    by (simp add: eligible_after_recheck_def R_def P_def case_prod_beta)
  have run: "conduct_raffle e cfg w =
      (if fst P = [] then logger Warning (snd P)
       else if fst R = [] then w3
       else if fst D = None then logger Error (snd D)
       else if fst S then logger Error (snd S)
       else logger Info w7)"
    by (auto simp: conduct_raffle_def case_prod_beta Let_def P_def R_def w3_def D_def S_def G_def w7_def
          split: option.split)
  have fp: "users (snd P) = users w" "raffle_winners (snd P) = raffle_winners w"
    "sends (trace (snd P)) = sends (trace w)" "user_id ` set (fst P) \<subseteq> set (registered_ids w)"
    using get_eligible_raffle_participants_frame [of e "logger Info w"]
    by (simp_all add: P_def registered_ids_def)
  have fr: "raffle_winners w3 = raffle_winners w" "sends (trace w3) = sends (trace w)"
    "set (registered_ids w3) \<subseteq> set (registered_ids w)"
  proof -
    note f = recheck_participants_frame [of e cfg "fst P" "logger Info (snd P)"]
    from f fp show "raffle_winners w3 = raffle_winners w" "sends (trace w3) = sends (trace w)"
      by (simp_all add: w3_def R_def)
    have a: "registered_ids (logger Info (snd P)) = registered_ids w"
      using fp by (simp add: registered_ids_def)
    have b: "registered_ids w3 = registered_ids (snd R)"
      by (simp add: w3_def registered_ids_def)
    from f have "set (registered_ids (snd R)) \<subseteq> set (registered_ids w) \<union> user_id ` set (fst P)"
      unfolding R_def a by blast
    with fp(4) show "set (registered_ids w3) \<subseteq> set (registered_ids w)"
      unfolding b by blast
  qed
  have fd: "users (snd D) = users w3" "raffle_winners (snd D) = raffle_winners w"
    "sends (trace (snd D)) = sends (trace w)"
    using draw_winners_frame [of e "fst R" w3] fr by (simp_all add: D_def)
  have fs: "users (snd S) = users w3" "sends (trace (snd S)) = sends (trace w)"
    "fst S \<Longrightarrow> raffle_winners (snd S) = raffle_winners w"
    using save_raffle_winners_frame [of e "the (fst D)" "snd D"] fd by (simp_all add: S_def)
  have fg: "users (snd G) = users w3" "sends (trace (snd G)) = sends (trace w)"
    "fst G = [] \<or> fst G = registered_ids w3"
    using get_all_registered_users_frame [of e "logger Info (snd S)"] fs
    by (simp_all add: G_def registered_ids_def)
  obtain xs where f7: "users w7 = users w3" "sends (trace w7) = sends (trace w) @ xs"
    "set xs = (\<lambda>u. (u, get_raffle_message cfg (the (fst D)))) ` set (fst G)"
    using fanout_frame [of e "fst G" "get_raffle_message cfg (the (fst D))" "logger Info (snd G)"] fg
    by (auto simp: w7_def)
  have ids: "registered_ids (logger Warning (snd P)) = registered_ids w"
    "registered_ids (logger Error (snd D)) = registered_ids w3"
    "registered_ids (logger Error (snd S)) = registered_ids w3"
    "registered_ids (logger Info w7) = registered_ids w3"
    using fp fd fs f7 by (simp_all add: registered_ids_def)
  have sub: "set (registered_ids (conduct_raffle e cfg w)) \<subseteq> set (registered_ids w)"
    using fr(3) by (simp add: run ids)
  have quiet: "raffle_winners (conduct_raffle e cfg w) = raffle_winners w
        \<and> sends (trace (conduct_raffle e cfg w)) = sends (trace w)" if "fst R = []"
    using that fp fr by (simp add: run)
  have snd7: "sends (trace (logger Info w7)) = sends (trace w)
     \<or> (\<exists>xs. sends (trace (logger Info w7)) = sends (trace w) @ xs \<and> fst ` set xs = set (registered_ids w3))"
  proof (cases "fst G = []")
    case True
    with f7 show ?thesis by simp
  next
    case False
    with fg(3) have "fst G = registered_ids w3" by simp
    with f7 have "sends (trace (logger Info w7)) = sends (trace w) @ xs \<and> fst ` set xs = set (registered_ids w3)"
      by (force simp: image_image)
    then show ?thesis by blast
  qed
  have out: "sends (trace (conduct_raffle e cfg w)) = sends (trace w)
    \<or> (\<exists>xs. sends (trace (conduct_raffle e cfg w)) = sends (trace w) @ xs
             \<and> fst ` set xs = set (registered_ids (conduct_raffle e cfg w)))"
    using fp fr fd fs snd7 by (simp add: run ids)
  from out sub quiet show ?thesis by (simp add: el)
qed

text \<open>
  Claim C4. When the eligible participants left by the repeated subscription check are none
  (also when the store gave no candidate), the raffle ends with the table of winners as
  it was and without a single send to any user.
\<close>

theorem empty_eligible_aborts_raffle:
  assumes "eligible_after_recheck e cfg w = []"
  shows "raffle_winners (conduct_raffle e cfg w) = raffle_winners w
         \<and> sends (trace (conduct_raffle e cfg w)) = sends (trace w)"
  using assms conduct_raffle_outcome [of e cfg w] by blast


lemma recheck_participants_nobody:
  assumes "\<And>uid w. \<not> fst (check_subscription e cfg uid w)"
  shows "fst (recheck_participants e cfg ps w) = []"
  by (induction ps arbitrary: w) (auto simp: assms case_prod_beta Let_def)

theorem empty_eligible_aborts_raffle_witness:
  "eligible_after_recheck nobody_subscribed_env sample_config two_registered_world = []
   \<and> raffle_winners (conduct_raffle nobody_subscribed_env sample_config two_registered_world) = []
   \<and> sends (trace (conduct_raffle nobody_subscribed_env sample_config two_registered_world)) = []"
proof -
  have ids: "channel_ids sample_config = [IdInt (-1001), IdInt (-1002), IdInt (-1003), IdInt (-1004)]"
    by (simp add: channel_ids_def sample_config_def)
  have c: "\<not> fst (check_subscription nobody_subscribed_env sample_config uid w)" for uid w
    by (simp add: check_subscription_def ids nobody_subscribed_env_def quiet_env_def
          is_subscribed_status_def case_prod_beta Let_def)
  have h: "eligible_after_recheck nobody_subscribed_env sample_config two_registered_world = []"
    by (simp add: eligible_after_recheck_def case_prod_beta recheck_participants_nobody [OF c])
  from empty_eligible_aborts_raffle [OF h] h show ?thesis
    by (simp add: two_registered_world_def)
qed

lemma fan_out_reminders_frame:
  "users (fan_out_reminders e cfg uids rs w) = users w
   \<and> (\<exists>xs. sends (trace (fan_out_reminders e cfg uids rs w)) = sends (trace w) @ xs
            \<and> fst ` set xs = (if rs = [] then {} else set uids))"
proof (induction rs arbitrary: w)
  case Nil
  show ?case by (simp add: fan_out_reminders_def)
next
  case (Cons r rs)
  let ?w1 = "fanout e uids (reminder_message cfg r) (logger Info w)"
  have step: "fan_out_reminders e cfg uids (r # rs) w = fan_out_reminders e cfg uids rs ?w1"
    by (simp add: fan_out_reminders_def)
  from fanout_frame [of e uids "reminder_message cfg r" "logger Info w"] obtain xs where
    1: "users ?w1 = users w" "sends (trace ?w1) = sends (trace w) @ xs"
       "set xs = (\<lambda>u. (u, reminder_message cfg r)) ` set uids"
    by auto
  from Cons [of ?w1] obtain ys where
    2: "users (fan_out_reminders e cfg uids rs ?w1) = users ?w1"
       "sends (trace (fan_out_reminders e cfg uids rs ?w1)) = sends (trace ?w1) @ ys"
       "fst ` set ys = (if rs = [] then {} else set uids)"
    by blast
  from 1(3) have x: "fst ` set xs = set uids" by (force simp: image_image)
  from 2(3) have "fst ` set ys \<subseteq> set uids" by (simp split: if_splits)
  with x have "fst ` set (xs @ ys) = set uids" by auto
  with 1 2 have "sends (trace (fan_out_reminders e cfg uids (r # rs) w)) = sends (trace w) @ (xs @ ys)
     \<and> fst ` set (xs @ ys) = (if r # rs = [] then {} else set uids)"
    by (simp add: step)
  moreover from 1 2 have "users (fan_out_reminders e cfg uids (r # rs) w) = users w"
    by (simp add: step)
  ultimately show ?case by blast
qed

lemma tick_recipients:
  "fst ` set (sent_since w (check_and_send_reminders e cfg w)) =
     (if db_raises e (Suc (step w)) \<or> due_reminders cfg (now_tuple (clock e (step w))) = [] then {}
      else set (registered_ids w))"
proof -
  define G where "G = get_all_registered_users e (advance w)"
  define rs where "rs = due_reminders cfg (now_tuple (clock e (step w)))"
  have g: "sends (trace (snd G)) = sends (trace w)"
    "fst G = (if db_raises e (Suc (step w)) then [] else registered_ids w)"
    using get_all_registered_users_frame [of e "advance w"] by (simp_all add: G_def registered_ids_def)
  have run: "check_and_send_reminders e cfg w =
      (if fst G = [] then logger Debug (snd G) else fan_out_reminders e cfg (fst G) rs (logger Info (snd G)))"
    by (simp add: tick_fans_out_due_reminders G_def rs_def case_prod_beta Let_def)
  show ?thesis
  proof (cases "fst G = []")
    case True
    with g have "sent_since w (check_and_send_reminders e cfg w) = []"
      by (simp add: run sent_since_def)
    with True g(2) show ?thesis by (auto simp: rs_def split: if_splits)
  next
    case False
    from fan_out_reminders_frame [of e cfg "fst G" rs "logger Info (snd G)"] g(1) obtain xs where
      "sends (trace (fan_out_reminders e cfg (fst G) rs (logger Info (snd G)))) = sends (trace w) @ xs"
      "fst ` set xs = (if rs = [] then {} else set (fst G))"
      by auto
    with False have "fst ` set (sent_since w (check_and_send_reminders e cfg w)) =
        (if rs = [] then {} else set (fst G))"
      by (simp add: run sent_since_append)
    with False g(2) show ?thesis by (auto simp: rs_def split: if_splits)
  qed
qed

lemma add_user_new_not_registered:
  assumes "uid \<notin> user_id ` set (users w)"
  shows "uid \<notin> set (registered_ids (add_user e uid un fn w))"
proof -
  from assms have new: "\<not> (\<exists>r \<in> set (users w). user_id r = uid)" by auto
  then have "registered_ids (add_user e uid un fn w) = registered_ids w"
    by (simp add: add_user_def registered_ids_def list_ex_iff Let_def filter_insort_triv)
  moreover from new have "uid \<notin> set (registered_ids w)"
    by (auto simp: registered_ids_def)
  ultimately show ?thesis by simp
qed

section \<open>Properties of the draw\<close>

lemma draw_k_step:
  "pool \<noteq> [] \<Longrightarrow>
   draw_k g n pool (Suc k) =
     pool ! (g n mod length pool) #
       draw_k g (Suc n) (take (g n mod length pool) pool @ drop (Suc (g n mod length pool)) pool) k"
  by (simp add: Let_def)

lemma mset_without_nth:
  "j < length pool \<Longrightarrow> mset pool = add_mset (pool ! j) (mset (take j pool @ drop (Suc j) pool))"
proof -
  assume "j < length pool"
  then have "pool = take j pool @ pool ! j # drop (Suc j) pool"
    by (rule id_take_nth_drop)
  then have "mset pool = mset (take j pool @ pool ! j # drop (Suc j) pool)"
    by simp
  then show ?thesis by simp
qed

lemma draw_k_without_replacement:
  "k \<le> length pool \<Longrightarrow>
   length (draw_k g n pool k) = k
   \<and> mset (draw_k g n pool k) \<subseteq># mset pool
   \<and> (k = length pool \<longrightarrow> mset (draw_k g n pool k) = mset pool)"
proof (induction k arbitrary: pool n)
  case 0
  then show ?case by simp
next
  case (Suc k)
  then have ne: "pool \<noteq> []" by auto
  define j where "j = g n mod length pool"
  define rest where "rest = take j pool @ drop (Suc j) pool"
  from ne have j: "j < length pool" by (simp add: j_def)
  then have len: "length rest = length pool - 1" by (simp add: rest_def)
  with Suc.prems have "k \<le> length rest" by simp
  from Suc.IH [of rest "Suc n", OF this] have ih:
    "length (draw_k g (Suc n) rest k) = k"
    "mset (draw_k g (Suc n) rest k) \<subseteq># mset rest"
    "k = length rest \<Longrightarrow> mset (draw_k g (Suc n) rest k) = mset rest"
    by simp_all
  have d: "draw_k g n pool (Suc k) = pool ! j # draw_k g (Suc n) rest k"
    using ne by (simp add: j_def rest_def Let_def)
  have m: "mset pool = add_mset (pool ! j) (mset rest)"
    unfolding rest_def using j by (rule mset_without_nth)
  have last: "Suc k = length pool \<Longrightarrow> k = length rest"
    using len by simp
  have "length (pool ! j # draw_k g (Suc n) rest k) = Suc k"
    using ih(1) by simp
  moreover have "mset (pool ! j # draw_k g (Suc n) rest k) \<subseteq># add_mset (pool ! j) (mset rest)"
    using ih(2) by simp
  moreover have "Suc k = length pool \<longrightarrow>
      mset (pool ! j # draw_k g (Suc n) rest k) = add_mset (pool ! j) (mset rest)"
    using ih(3) last by auto
  ultimately show ?case unfolding d m by blast
qed

lemma distinct_of_submultiset:
  assumes "mset xs \<subseteq># mset ys" and "distinct ys"
  shows "distinct xs"
proof -
  have "count (mset xs) a \<le> 1" for a
  proof -
    have "count (mset xs) a \<le> count (mset ys) a"
      using assms(1) by (rule mset_subset_eq_count)
    also have "\<dots> \<le> 1"
      using assms(2) by (simp add: distinct_count_atmost_1)
    finally show ?thesis .
  qed
  then show ?thesis
    by (metis count_mset_0_iff distinct_count_atmost_1 le_antisym le_zero_eq not_less_eq_eq
        One_nat_def Suc_le_eq neq0_conv)
qed


lemma select_winners_draws:
  assumes "el \<noteq> []"
  shows "\<exists>ws. fst (select_winners e el w) = Some ws
           \<and> ws = draw_k (random_draw e) (step w) el (min (length el) 3)
           \<and> length ws = min (length el) 3
           \<and> mset ws \<subseteq># mset el
           \<and> (length el \<le> 3 \<longrightarrow> mset ws = mset el)"
proof (cases "3 < length el")
  case True
  then have "fst (select_winners e el w) = Some (draw_k (random_draw e) (step w) el 3)"
    by (simp add: select_winners_def random_sample_def)
  moreover from True have "3 \<le> length el" by simp
  note draw_k_without_replacement [OF this, of "random_draw e" "step w"]
  ultimately show ?thesis using True by simp
next
  case False
  then have "fst (select_winners e el w) = Some (draw_k (random_draw e) (step w) el (length el))"
    by (simp add: select_winners_def random_shuffle_def)
  moreover note draw_k_without_replacement [of "length el" el "random_draw e" "step w"]
  ultimately show ?thesis using False by simp
qed

lemma winners_loop_result:
  "n \<le> length ws \<Longrightarrow> n \<le> 3 \<Longrightarrow>
   fst (winners_loop ws n i acc w) =
     Some (acc @ map (\<lambda>k. \<lparr>user_id = user_id (ws ! k), username = username (ws ! k),
                               first_name = first_name (ws ! k),
                               prize_place = fst (prizes ! k), prize_amount = snd (prizes ! k)\<rparr>) [i..<n])"
proof (induction "n - i" arbitrary: i acc w)
  case 0
  then show ?case by (subst winners_loop.simps) simp
next
  case (Suc d)
  then have lt: "i < n" and d: "d = n - Suc i" by simp_all
  have p: "length prizes = 3" by (simp add: prizes_def)
  from lt have u: "[i..<n] = i # [Suc i..<n]" by (simp add: upt_rec)
  show ?case
    using lt Suc.prems Suc.hyps(1) [OF d Suc.prems]
    by (subst winners_loop.simps) (simp add: p u Let_def)
qed


lemma map_nth_prefix: "n \<le> length xs \<Longrightarrow> map (\<lambda>k. f (xs ! k)) [0..<n] = take n (map f xs)"
  by (auto intro!: nth_equalityI)

text \<open>
  What the draw returns for any non-empty list of eligible participants, in any world:
  the participants named by the draws of the random module, in the order drawn, each with
  the place and the amount of its position.
\<close>

lemma draw_winners_ranked:
  assumes "eligible_participants \<noteq> []"
  shows "\<exists>winners_data w'.
           draw_winners e eligible_participants w = (Some winners_data, w')
           \<and> length winners_data = min (length eligible_participants) 3
           \<and> map winner_participant winners_data =
               draw_k (random_draw e) (step w) eligible_participants (min (length eligible_participants) 3)
           \<and> map prize_place winners_data = take (length winners_data) [1, 2, 3]
           \<and> map prize_amount winners_data =
               take (length winners_data) [''10 000 '' @ rouble, ''5 000 '' @ rouble, ''3 000 '' @ rouble]
           \<and> mset (map winner_participant winners_data) \<subseteq># mset eligible_participants
           \<and> (length eligible_participants \<le> 3 \<longrightarrow>
                mset (map winner_participant winners_data) = mset eligible_participants)
           \<and> (distinct (map user_id eligible_participants) \<longrightarrow> distinct (map user_id winners_data))"
proof -
  let ?el = eligible_participants
  define n where "n = min (length ?el) 3"
  from select_winners_draws [OF assms, of e w] obtain ws where
    sel: "fst (select_winners e ?el w) = Some ws" and len: "length ws = n"
    and drawn: "ws = draw_k (random_draw e) (step w) ?el n"
    and sub: "mset ws \<subseteq># mset ?el" and all: "length ?el \<le> 3 \<Longrightarrow> mset ws = mset ?el"
    by (auto simp: n_def)
  define mk where "mk = (\<lambda>k. \<lparr>user_id = user_id (ws ! k), username = username (ws ! k),
       first_name = first_name (ws ! k),
       prize_place = fst (prizes ! k), prize_amount = snd (prizes ! k)\<rparr>)"
  define wd where "wd = map mk [0..<n]"
  have n3: "n \<le> 3" and p: "length prizes = 3" by (simp_all add: n_def prizes_def)
  have run: "draw_winners e ?el w = winners_loop ws n 0 [] (snd (select_winners e ?el w))"
    using sel by (simp add: draw_winners_def n_def case_prod_beta Let_def)
  have res: "fst (draw_winners e ?el w) = Some wd"
    using winners_loop_result [of n ws 0 "[]" "snd (select_winners e ?el w)"] len n3
    by (simp add: run wd_def mk_def)
  have l: "length wd = n" by (simp add: wd_def)
  have "map winner_participant wd = map (\<lambda>k. ws ! k) [0..<length ws]"
    by (simp add: wd_def mk_def winner_participant_def len)
  then have part: "map winner_participant wd = ws" by (simp add: map_nth)
  have "map prize_place wd = map (\<lambda>k. fst (prizes ! k)) [0..<n]"
    by (simp add: wd_def mk_def)
  also have "\<dots> = take n (map fst prizes)"
    using n3 p by (intro map_nth_prefix) simp
  finally have places: "map prize_place wd = take n [1, 2, 3]"
    by (simp add: prizes_def)
  have "map prize_amount wd = map (\<lambda>k. snd (prizes ! k)) [0..<n]"
    by (simp add: wd_def mk_def)
  also have "\<dots> = take n (map snd prizes)"
    using n3 p by (intro map_nth_prefix) simp
  finally have amounts: "map prize_amount wd =
      take n [''10 000 '' @ rouble, ''5 000 '' @ rouble, ''3 000 '' @ rouble]"
    by (simp add: prizes_def)
  have "map user_id wd = map (\<lambda>k. user_id (ws ! k)) [0..<length ws]"
    by (simp add: wd_def mk_def len)
  also have "\<dots> = map user_id ws"
    by (intro map_nth_prefix [of "length ws" ws user_id, simplified]) 
  finally have ids: "map user_id wd = map user_id ws" .
  have dist: "distinct (map user_id wd)" if "distinct (map user_id ?el)"
  proof -
    from sub have "mset (map user_id ws) \<subseteq># mset (map user_id ?el)"
      by (simp add: image_mset_subseteq_mono)
    from distinct_of_submultiset [OF this that] show ?thesis by (simp add: ids)
  qed
  from res have "draw_winners e ?el w = (Some wd, snd (draw_winners e ?el w))"
    by (metis prod.collapse)
  with l places amounts part sub all dist drawn show ?thesis
    unfolding n_def by (intro exI [of _ wd] exI [of _ "snd (draw_winners e ?el w)"]) simp
qed



lemma draw_three_of_four: "draw_k (\<lambda>n. n) 0 [a, b, c, d] (Suc (Suc (Suc 0))) = [a, c, b]"
  by (simp add: draw_k_step del: draw_k.simps(2))

lemma four_eligible_sample:
  "fst (select_winners quiet_env four_eligible empty_world) =
     Some [four_eligible ! 0, four_eligible ! 2, four_eligible ! 1]"
proof -
  have a: "random_draw quiet_env = (\<lambda>n. n)" "step empty_world = 0"
    by (simp_all add: quiet_env_def empty_world_def)
  have n: "length four_eligible = 4" by (simp add: four_eligible_def)
  have "fst (select_winners quiet_env four_eligible empty_world) =
      Some (draw_k (\<lambda>n. n) 0 four_eligible (Suc (Suc (Suc 0))))"
    by (simp add: select_winners_def random_sample_def a n numeral_3_eq_3 del: draw_k.simps)
  also have "draw_k (\<lambda>n. n) 0 four_eligible (Suc (Suc (Suc 0))) =
      [four_eligible ! 0, four_eligible ! 2, four_eligible ! 1]"
    by (simp add: four_eligible_def draw_three_of_four del: draw_k.simps)
  finally show ?thesis .
qed

lemma four_eligible_draw:
  "fst (draw_winners quiet_env four_eligible empty_world) =
     Some [\<lparr>user_id = 11, username = Some ''anna'', first_name = Some ''Anna'',
             prize_place = 1, prize_amount = ''10 000 '' @ rouble\<rparr>,
           \<lparr>user_id = 13, username = Some ''vera'', first_name = Some ''Vera'',
             prize_place = 2, prize_amount = ''5 000 '' @ rouble\<rparr>,
           \<lparr>user_id = 12, username = Some ''boris'', first_name = None,
             prize_place = 3, prize_amount = ''3 000 '' @ rouble\<rparr>]"
proof -
  let ?ws = "[four_eligible ! 0, four_eligible ! 2, four_eligible ! 1]"
  have n: "min (length four_eligible) 3 = 3" by (simp add: four_eligible_def)
  have u: "[0..<3] = [0, 1, 2]" by (simp add: upt_rec)
  have "fst (draw_winners quiet_env four_eligible empty_world) =
      fst (winners_loop ?ws 3 0 [] (snd (select_winners quiet_env four_eligible empty_world)))"
    using four_eligible_sample by (simp add: draw_winners_def case_prod_beta n)
  also have "\<dots> = Some (map (\<lambda>k. \<lparr>user_id = user_id (?ws ! k), username = username (?ws ! k),
                               first_name = first_name (?ws ! k),
                               prize_place = fst (prizes ! k), prize_amount = snd (prizes ! k)\<rparr>) [0..<3])"
    by (subst winners_loop_result) simp_all
  finally show ?thesis
    by (simp add: u prizes_def four_eligible_def)
qed

text \<open>
  The eligible participants of a raffle have distinct user ids when the rows of \<open>users\<close>
  have, as the primary key requires; \<open>add_user\<close> keeps the ids of the table distinct.
\<close>

lemma recheck_participants_keeps:
  "set (fst (recheck_participants e cfg ps w)) \<subseteq> set ps
   \<and> (distinct (map user_id ps) \<longrightarrow> distinct (map user_id (fst (recheck_participants e cfg ps w))))"
  by (induction ps arbitrary: w) (auto simp: case_prod_beta Let_def)

lemma eligible_after_recheck_distinct:
  assumes "distinct (map user_id (users w))"
  shows "distinct (map user_id (eligible_after_recheck e cfg w))"
proof -
  have "distinct (map user_id (fst (get_eligible_raffle_participants e (logger Info w))))"
    using assms by (simp add: get_eligible_raffle_participants_def o_def distinct_map_filter)
  then show ?thesis
    using recheck_participants_keeps by (simp add: eligible_after_recheck_def case_prod_beta)
qed

lemma add_user_keeps_ids_distinct:
  assumes "distinct (map user_id (users w))"
  shows "distinct (map user_id (users (add_user e uid un fn w)))"
proof -
  have same: "(\<lambda>r::user_row. user_id (if user_id r = uid then r\<lparr>username := un, first_name := fn\<rparr> else r)) = user_id"
    by auto
  have new: "distinct (map user_id (insort_key user_id r (users w)))"
    if "\<forall>r' \<in> set (users w). user_id r' \<noteq> user_id r" for r :: user_row
    using assms that by (auto simp: distinct_map distinct_insort set_insort_key)
  show ?thesis
  proof (cases "db_raises e (step w) \<or> (\<exists>r \<in> set (users w). user_id r = uid)")
    case True
    with assms same show ?thesis
      by (auto simp: add_user_def Let_def list_ex_iff o_def)
  next
    case False
    then have "users (add_user e uid un fn w) =
        insort_key user_id \<lparr>user_id = uid, username = un, first_name = fn,
          registered_at = clock e (step w), subscribed = 0\<rparr> (users w)"
      by (simp add: add_user_def Let_def list_ex_iff)
    with False show ?thesis by (simp add: new)
  qed
qed

section \<open>The raffle as a whole\<close>

lemma conduct_raffle_after_draw:
  assumes el: "eligible_after_recheck e cfg w \<noteq> []"
    and d: "draw_winners e (eligible_after_recheck e cfg w) (world_before_draw e cfg w) = (Some wd, w4)"
  shows "conduct_raffle e cfg w =
           (if db_raises e (step w4) then logger Error (snd (save_raffle_winners e wd w4))
            else logger Info
                   (fanout e (fst (get_all_registered_users e (logger Info (snd (save_raffle_winners e wd w4)))))
                      (get_raffle_message cfg wd)
                      (logger Info (snd (get_all_registered_users e
                                           (logger Info (snd (save_raffle_winners e wd w4))))))))"
proof -
  define P where "P = get_eligible_raffle_participants e (logger Info w)"
  define R where "R = recheck_participants e cfg (fst P) (logger Info (snd P))"
  have e1: "eligible_after_recheck e cfg w = fst R"
    by (simp add: eligible_after_recheck_def R_def P_def case_prod_beta)
  have w3: "world_before_draw e cfg w = logger Info (snd R)"
    by (simp add: world_before_draw_def R_def P_def case_prod_beta)
  from el e1 have r: "fst R \<noteq> []" by simp
  have p: "fst P \<noteq> []"
  proof
    assume "fst P = []"
    then have "fst R = []" by (simp add: R_def)
    with r show False by simp
  qed
  from d have d': "draw_winners e (fst R) (logger Info (snd R)) = (Some wd, w4)"
    by (simp add: e1 w3)
  have raised: "fst (save_raffle_winners e wd w4) = db_raises e (step w4)"
    by (simp add: save_raffle_winners_def)
  show ?thesis
    using p r d' raised
    by (simp add: conduct_raffle_def case_prod_beta Let_def P_def [symmetric] R_def [symmetric])
qed


lemma world_before_draw_frame:
  "raffle_winners (world_before_draw e cfg w) = raffle_winners w
   \<and> sends (trace (world_before_draw e cfg w)) = sends (trace w)
   \<and> set (registered_ids (world_before_draw e cfg w)) \<subseteq> set (registered_ids w)"
proof -
  define P where "P = get_eligible_raffle_participants e (logger Info w)"
  note fp = get_eligible_raffle_participants_frame [of e "logger Info w"]
  note fr = recheck_participants_frame [of e cfg "fst P" "logger Info (snd P)"]
  have w3: "world_before_draw e cfg w = logger Info (snd (recheck_participants e cfg (fst P) (logger Info (snd P))))"
    by (simp add: world_before_draw_def P_def case_prod_beta)
  have a: "registered_ids (logger Info (snd P)) = registered_ids w"
    using fp by (simp add: registered_ids_def P_def)
  have b: "registered_ids (world_before_draw e cfg w) =
      registered_ids (snd (recheck_participants e cfg (fst P) (logger Info (snd P))))"
    by (simp add: w3 registered_ids_def)
  have p4: "user_id ` set (fst P) \<subseteq> set (registered_ids w)"
    using fp by (simp add: P_def registered_ids_def)
  from fr have "set (registered_ids (snd (recheck_participants e cfg (fst P) (logger Info (snd P)))))
      \<subseteq> set (registered_ids w) \<union> user_id ` set (fst P)"
    unfolding a by blast
  with p4 have "set (registered_ids (world_before_draw e cfg w)) \<subseteq> set (registered_ids w)"
    unfolding b by blast
  moreover from fr fp have "raffle_winners (world_before_draw e cfg w) = raffle_winners w"
    "sends (trace (world_before_draw e cfg w)) = sends (trace w)"
    by (simp_all add: w3 P_def)
  ultimately show ?thesis by blast
qed

lemma winner_participant_user_id: "map user_id (map winner_participant wd) = map user_id wd"
  by (simp add: winner_participant_def o_def)

text \<open>
  Claim C3. In a raffle whose eligible participants are \<open>n > 0\<close>, the draw returns
  \<open>min n 3\<close> winners: the participants that the draws of the random module name among the
  eligible ones, in the order drawn (a sample of three without replacement when \<open>n > 3\<close>,
  all of them shuffled when \<open>n \<le> 3\<close>), with the places 1, 2, 3 and the amounts "10 000",
  "5 000", "3 000" roubles by position; with \<open>user_id\<close> the primary key of \<open>users\<close> no user
  id occurs at two places; and these winners are the rows that the raffle appends to the
  table of winners, unless the store raises.
\<close>

theorem raffle_draws_ranked_winners:
  assumes "eligible_after_recheck e cfg w \<noteq> []"
  shows "\<exists>winners_data w4.
           draw_winners e (eligible_after_recheck e cfg w) (world_before_draw e cfg w) = (Some winners_data, w4)
           \<and> length winners_data = min (length (eligible_after_recheck e cfg w)) 3
           \<and> map winner_participant winners_data =
               draw_k (random_draw e) (step (world_before_draw e cfg w)) (eligible_after_recheck e cfg w)
                 (min (length (eligible_after_recheck e cfg w)) 3)
           \<and> map prize_place winners_data = take (length winners_data) [1, 2, 3]
           \<and> map prize_amount winners_data =
               take (length winners_data) [''10 000 '' @ rouble, ''5 000 '' @ rouble, ''3 000 '' @ rouble]
           \<and> mset (map winner_participant winners_data) \<subseteq># mset (eligible_after_recheck e cfg w)
           \<and> (length (eligible_after_recheck e cfg w) \<le> 3 \<longrightarrow>
                mset (map winner_participant winners_data) = mset (eligible_after_recheck e cfg w))
           \<and> (distinct (map user_id (users w)) \<longrightarrow> distinct (map user_id winners_data))
           \<and> raffle_winners (conduct_raffle e cfg w) =
               (if db_raises e (step w4) then raffle_winners w
                else insert_winners e (Suc (step w4)) winners_data (raffle_winners w))"
proof -
  let ?el = "eligible_after_recheck e cfg w"
  let ?w3 = "world_before_draw e cfg w"
  from draw_winners_ranked [OF assms, of e ?w3] obtain wd w4 where
    d: "draw_winners e ?el ?w3 = (Some wd, w4)"
    and props: "length wd = min (length ?el) 3"
      "map winner_participant wd = draw_k (random_draw e) (step ?w3) ?el (min (length ?el) 3)"
      "map prize_place wd = take (length wd) [1, 2, 3]"
      "map prize_amount wd = take (length wd) [''10 000 '' @ rouble, ''5 000 '' @ rouble, ''3 000 '' @ rouble]"
      "mset (map winner_participant wd) \<subseteq># mset ?el"
      "length ?el \<le> 3 \<longrightarrow> mset (map winner_participant wd) = mset ?el"
      "distinct (map user_id ?el) \<longrightarrow> distinct (map user_id wd)"
    by blast
  have dist: "distinct (map user_id (users w)) \<longrightarrow> distinct (map user_id wd)"
    using props(7) eligible_after_recheck_distinct [of w e cfg] by blast
  have w4: "raffle_winners w4 = raffle_winners w"
    using draw_winners_frame [of e ?el ?w3] d world_before_draw_frame [of e cfg w] by simp
  note run = conduct_raffle_after_draw [OF assms d]
  have frame: "raffle_winners (fanout e uids m w') = raffle_winners w'" for uids m w'
    using fanout_frame [of e uids m w'] by blast
  have saved: "raffle_winners (conduct_raffle e cfg w) =
      (if db_raises e (step w4) then raffle_winners w
       else insert_winners e (Suc (step w4)) wd (raffle_winners w))"
  proof -
    have gf: "raffle_winners (snd (get_all_registered_users e w')) = raffle_winners w'" for w'
      by (simp add: get_all_registered_users_def)
    have sv: "raffle_winners (snd (save_raffle_winners e wd w4)) =
        (if db_raises e (step w4) then raffle_winners w
         else insert_winners e (Suc (step w4)) wd (raffle_winners w))"
      by (simp add: save_raffle_winners_def w4)
    show ?thesis
      unfolding run by (simp add: frame gf sv)
  qed
  from d props(1-6) dist saved show ?thesis by blast
qed


lemma check_subscription_all_members:
  assumes "member_result e = (\<lambda>n c u. Status MEMBER)"
  shows "fst (check_subscription e cfg uid w)"
proof -
  have "fst (check_channels e uid cs w) = map (\<lambda>i. True) [0..<length cs]" for cs
    using check_channels_result [of e uid cs w]
    by (simp add: assms counts_as_subscribed_def del: upt_Suc)
  then show ?thesis
    by (simp add: check_subscription_def case_prod_beta list_all_iff)
qed

lemma recheck_participants_everybody:
  assumes "\<And>uid w. fst (check_subscription e cfg uid w)"
    and "\<forall>p \<in> set ps. username p \<noteq> None \<and> username p \<noteq> Some []"
  shows "fst (recheck_participants e cfg ps w) = ps"
  using assms(2) by (induction ps arbitrary: w) (auto simp: assms(1) case_prod_beta Let_def)

lemma insert_winners_columns:
  "map user_id (insert_winners e n wd rows) = map user_id rows @ map user_id wd
   \<and> map prize_place (insert_winners e n wd rows) = map prize_place rows @ map prize_place wd
   \<and> map prize_amount (insert_winners e n wd rows) = map prize_amount rows @ map prize_amount wd"
  by (induction wd arbitrary: n rows) simp_all

lemma draw_second_of_three: "draw_k (\<lambda>n. 1) s [a, b, c] (Suc (Suc (Suc 0))) = [b, c, a]"
  by (simp add: draw_k_step del: draw_k.simps(2))

theorem raffle_draws_ranked_winners_witness:
  "eligible_after_recheck second_drawn_env sample_config three_registered_world =
     [\<lparr>user_id = 1, username = Some ''anna'', first_name = Some ''Anna''\<rparr>,
      \<lparr>user_id = 2, username = Some ''boris'', first_name = Some ''Boris''\<rparr>,
      \<lparr>user_id = 3, username = Some ''vera'', first_name = None\<rparr>]
   \<and> eligible_after_recheck second_drawn_env sample_config three_registered_world \<noteq> []
   \<and> map user_id (raffle_winners (conduct_raffle second_drawn_env sample_config three_registered_world)) = [2, 3, 1]
   \<and> map prize_place (raffle_winners (conduct_raffle second_drawn_env sample_config three_registered_world)) = [1, 2, 3]
   \<and> map prize_amount (raffle_winners (conduct_raffle second_drawn_env sample_config three_registered_world)) =
        [''10 000 '' @ rouble, ''5 000 '' @ rouble, ''3 000 '' @ rouble]"
proof -
  let ?e = second_drawn_env and ?w = three_registered_world
  let ?el = "[\<lparr>user_id = 1, username = Some ''anna'', first_name = Some ''Anna''\<rparr>,
      \<lparr>user_id = 2, username = Some ''boris'', first_name = Some ''Boris''\<rparr>,
      \<lparr>user_id = 3, username = Some ''vera'', first_name = None\<rparr>]"
  have env: "member_result ?e = (\<lambda>n c u. Status MEMBER)" "random_draw ?e = (\<lambda>n. 1)"
    "\<not> db_raises ?e k" for k
    by (simp_all add: second_drawn_env_def quiet_env_def)
  have c: "fst (check_subscription ?e sample_config uid w)" for uid w
    using env(1) by (rule check_subscription_all_members)
  have p: "fst (get_eligible_raffle_participants ?e (logger Info ?w)) = ?el"
    by (simp add: get_eligible_raffle_participants_def env(3) three_registered_world_def)
  have el: "eligible_after_recheck ?e sample_config ?w = ?el"
    unfolding eligible_after_recheck_def case_prod_beta Let_def p
    by (rule recheck_participants_everybody [OF c]) simp
  then have ne: "eligible_after_recheck ?e sample_config ?w \<noteq> []" by simp
  from raffle_draws_ranked_winners [OF ne] obtain wd w4 where
    "draw_winners ?e (eligible_after_recheck ?e sample_config ?w) (world_before_draw ?e sample_config ?w) =
       (Some wd, w4)"
    and len: "length wd = min (length (eligible_after_recheck ?e sample_config ?w)) 3"
    and drawn: "map winner_participant wd =
       draw_k (random_draw ?e) (step (world_before_draw ?e sample_config ?w))
         (eligible_after_recheck ?e sample_config ?w)
         (min (length (eligible_after_recheck ?e sample_config ?w)) 3)"
    and places: "map prize_place wd = take (length wd) [1, 2, 3]"
    and amounts: "map prize_amount wd =
       take (length wd) [''10 000 '' @ rouble, ''5 000 '' @ rouble, ''3 000 '' @ rouble]"
    and "mset (map winner_participant wd) \<subseteq># mset (eligible_after_recheck ?e sample_config ?w)"
    and "length (eligible_after_recheck ?e sample_config ?w) \<le> 3 \<longrightarrow>
           mset (map winner_participant wd) = mset (eligible_after_recheck ?e sample_config ?w)"
    and "distinct (map user_id (users ?w)) \<longrightarrow> distinct (map user_id wd)"
    and saved: "raffle_winners (conduct_raffle ?e sample_config ?w) =
       (if db_raises ?e (step w4) then raffle_winners ?w
        else insert_winners ?e (Suc (step w4)) wd (raffle_winners ?w))"
    by (elim exE conjE)
  have three: "min (length ?el) 3 = Suc (Suc (Suc 0))" by simp
  have "map winner_participant wd = [?el ! 1, ?el ! 2, ?el ! 0]"
    unfolding drawn el env(2) three by (simp only: draw_second_of_three) simp
  then have "map user_id (map winner_participant wd) = [2, 3, 1]" by simp
  then have ids: "map user_id wd = [2, 3, 1]" by (simp only: winner_participant_user_id)
  from len have l: "length wd = 3" by (simp add: el)
  have rows: "raffle_winners (conduct_raffle ?e sample_config ?w) = insert_winners ?e (Suc (step w4)) wd []"
    using saved by (simp add: env(3) three_registered_world_def)
  have "map user_id (raffle_winners (conduct_raffle ?e sample_config ?w)) = [2, 3, 1]"
    "map prize_place (raffle_winners (conduct_raffle ?e sample_config ?w)) = [1, 2, 3]"
    "map prize_amount (raffle_winners (conduct_raffle ?e sample_config ?w)) =
        [''10 000 '' @ rouble, ''5 000 '' @ rouble, ''3 000 '' @ rouble]"
    using insert_winners_columns [of ?e "Suc (step w4)" wd "[]"] ids places amounts l
    by (simp_all add: rows)
  with el ne show ?thesis by blast
qed

section \<open>Who receives a broadcast\<close>

lemma conduct_raffle_users:
  assumes "eligible_after_recheck e cfg w \<noteq> []"
  shows "users (conduct_raffle e cfg w) = users (world_before_draw e cfg w)"
proof -
  from draw_winners_ranked [OF assms, of e "world_before_draw e cfg w"] obtain wd w4 where
    d: "draw_winners e (eligible_after_recheck e cfg w) (world_before_draw e cfg w) = (Some wd, w4)"
    by blast
  have u4: "users w4 = users (world_before_draw e cfg w)"
    using draw_winners_frame [of e "eligible_after_recheck e cfg w" "world_before_draw e cfg w"] d by simp
  have us: "users (snd (save_raffle_winners e wd w4)) = users w4"
    using save_raffle_winners_frame [of e wd w4] by blast
  have ug: "users (snd (get_all_registered_users e w')) = users w'" for w'
    by (simp add: get_all_registered_users_def)
  have uf: "users (fanout e uids m w') = users w'" for uids m w'
    using fanout_frame [of e uids m w'] by blast
  show ?thesis
    unfolding conduct_raffle_after_draw [OF assms d] by (simp add: uf ug us u4)
qed

lemma conduct_raffle_recipients_exact:
  "fst ` set (sent_since w (conduct_raffle e cfg w)) =
     (if eligible_after_recheck e cfg w = []
         \<or> db_raises e (step (world_after_draw e cfg w))
         \<or> db_raises e (Suc (step (world_after_draw e cfg w)) + min (length (eligible_after_recheck e cfg w)) 3)
      then {} else set (registered_ids (conduct_raffle e cfg w)))"
proof (cases "eligible_after_recheck e cfg w = []")
  case True
  with conduct_raffle_outcome [of e cfg w] have "sends (trace (conduct_raffle e cfg w)) = sends (trace w)"
    by blast
  with True show ?thesis by (simp add: sent_since_nothing)
next
  case False
  let ?el = "eligible_after_recheck e cfg w" and ?w3 = "world_before_draw e cfg w"
  from draw_winners_ranked [OF False, of e ?w3] obtain wd w4 where
    d: "draw_winners e ?el ?w3 = (Some wd, w4)" and len: "length wd = min (length ?el) 3"
    by blast
  then have w4: "world_after_draw e cfg w = w4" by (simp add: world_after_draw_def)
  have s4: "sends (trace w4) = sends (trace w)"
    using draw_winners_frame [of e ?el ?w3] d world_before_draw_frame [of e cfg w] by simp
  define S where "S = snd (save_raffle_winners e wd w4)"
  have sS: "sends (trace S) = sends (trace w)"
    using save_raffle_winners_frame [of e wd w4] s4 by (simp add: S_def)
  note run = conduct_raffle_after_draw [OF False d, folded S_def]
  show ?thesis
  proof (cases "db_raises e (step w4)")
    case True
    then have "sent_since w (conduct_raffle e cfg w) = []"
      by (simp add: run sS sent_since_nothing)
    with True show ?thesis by (simp add: w4)
  next
    case ok: False
    then have stS: "step (logger Info S) = Suc (step w4) + min (length ?el) 3"
      by (simp add: S_def save_raffle_winners_def len)
    define G where "G = get_all_registered_users e (logger Info S)"
    have g: "sends (trace (snd G)) = sends (trace w)" "users (snd G) = users S"
      "fst G = (if db_raises e (Suc (step w4) + min (length ?el) 3) then [] else registered_ids (logger Info S))"
      using get_all_registered_users_frame [of e "logger Info S"] sS stS by (simp_all add: G_def)
    from fanout_frame [of e "fst G" "get_raffle_message cfg wd" "logger Info (snd G)"] g(1,2) obtain xs where
      f: "users (fanout e (fst G) (get_raffle_message cfg wd) (logger Info (snd G))) = users S"
        "sends (trace (fanout e (fst G) (get_raffle_message cfg wd) (logger Info (snd G)))) = sends (trace w) @ xs"
        "set xs = (\<lambda>u. (u, get_raffle_message cfg wd)) ` set (fst G)"
      by auto
    from f(3) have x: "fst ` set xs = set (fst G)" by (force simp: image_image)
    have final: "conduct_raffle e cfg w =
        logger Info (fanout e (fst G) (get_raffle_message cfg wd) (logger Info (snd G)))"
      using ok by (simp add: run G_def)
    have "sent_since w (conduct_raffle e cfg w) = xs"
      using f(2) by (simp add: final sent_since_append)
    moreover have "registered_ids (conduct_raffle e cfg w) = registered_ids (logger Info S)"
      using f(1) by (simp add: final registered_ids_def)
    ultimately show ?thesis
      using ok x g(3) False by (simp add: w4)
  qed
qed


lemma step_state_clear [simp]: "step (state_clear w) = step w"
  and users_state_clear [simp]: "users (state_clear w) = users w"
  and winners_state_clear [simp]: "raffle_winners (state_clear w) = raffle_winners w"
  and trace_state_clear [simp]: "trace (state_clear w) = trace w @ [StateClear]"
  by (simp_all add: state_clear_def)

lemma answers_append [simp]: "answers (xs @ ys) = answers xs @ answers ys"
  by (induction xs rule: answers.induct) auto

lemma callback_answer_frame:
  "users (snd (callback_answer e alert w)) = users w
   \<and> sends (trace (snd (callback_answer e alert w))) = sends (trace w)
   \<and> answers (trace (snd (callback_answer e alert w))) = answers (trace w)"
  by (simp add: callback_answer_def)

lemma message_answer_frame:
  "users (snd (message_answer e cb t w)) = users w
   \<and> sends (trace (snd (message_answer e cb t w))) = sends (trace w)
   \<and> answers (trace (snd (message_answer e cb t w))) = answers (trace w) @ [(cb_chat_id cb, t)]"
  by (simp add: message_answer_def Let_def)

lemma admin_send_loop_answers:
  "answers (trace (snd (admin_send_loop e md uids counts w))) = answers (trace w)"
proof (induction uids arbitrary: counts w)
  case Nil
  show ?case by simp
next
  case (Cons u uids)
  obtain sc ec where c: "counts = (sc, ec)" by (cases counts)
  show ?case
    unfolding c by (simp add: Cons Let_def split: option.split)
qed

lemma safe_edit_message_frame:
  "users (safe_edit_message e cb t w) = users w
   \<and> answers (trace (safe_edit_message e cb t w)) = answers (trace w)
   \<and> (\<exists>xs. sends (trace (safe_edit_message e cb t w)) = sends (trace w) @ xs
            \<and> fst ` set xs \<subseteq> {cb_chat_id cb})"
proof -
  have "users (safe_edit_message e cb t w) = users w"
    "answers (trace (safe_edit_message e cb t w)) = answers (trace w)"
    by (simp_all add: safe_edit_message_def Let_def)
  moreover have "sends (trace (safe_edit_message e cb t w)) = sends (trace w)
      \<or> sends (trace (safe_edit_message e cb t w)) = sends (trace w) @ [(cb_chat_id cb, t)]
      \<or> sends (trace (safe_edit_message e cb t w)) =
           sends (trace w) @ [(cb_chat_id cb, t), (cb_chat_id cb, escape_markdown t)]"
    by (simp add: safe_edit_message_def Let_def)
  then have "\<exists>xs. sends (trace (safe_edit_message e cb t w)) = sends (trace w) @ xs
            \<and> fst ` set xs \<subseteq> {cb_chat_id cb}"
    by (elim disjE) (rule exI [of _ "[]"], simp, rule exI [of _ "[(cb_chat_id cb, t)]"], simp,
          rule exI [of _ "[(cb_chat_id cb, t), (cb_chat_id cb, escape_markdown t)]"], simp)
  ultimately show ?thesis by blast
qed

lemma confirm_send_prologue_frame:
  "users (snd (confirm_send_prologue e cb w)) = users w
   \<and> answers (trace (snd (confirm_send_prologue e cb w))) = answers (trace w)
   \<and> (\<exists>xs. sends (trace (snd (confirm_send_prologue e cb w))) = sends (trace w) @ xs
            \<and> fst ` set xs \<subseteq> {cb_chat_id cb})"
  using safe_edit_message_frame [of e cb TEXT_SENDING w]
    callback_answer_frame [of e None "safe_edit_message e cb TEXT_SENDING w"]
  by (simp add: confirm_send_prologue_def)

text \<open>
  The sends of the whole handler: messages to the administrator's chat, then the message
  to broadcast to each registered user in turn, then messages to the administrator's chat;
  and what it answers, into the administrator's chat.
\<close>

lemma confirm_send_callback_handler_sends:
  "\<exists>pre post ans.
     sent_since w (snd (confirm_send_callback_handler e cb (Some md) w)) =
       pre @ map (\<lambda>u. (u, md_text md))
               (if fst (confirm_send_prologue e cb w)
                   \<or> db_raises e (step (snd (confirm_send_prologue e cb w)))
                then [] else registered_ids w) @ post
     \<and> fst ` set pre \<subseteq> {cb_chat_id cb} \<and> fst ` set post \<subseteq> {cb_chat_id cb}
     \<and> answers (trace (snd (confirm_send_callback_handler e cb (Some md) w))) = answers (trace w) @ ans
     \<and> fst ` set ans \<subseteq> {cb_chat_id cb}"
proof -
  let ?h = "snd (confirm_send_callback_handler e cb (Some md) w)"
  define P where "P = confirm_send_prologue e cb w"
  from confirm_send_prologue_frame [of e cb w] obtain pre where
    p: "users (snd P) = users w" "sends (trace (snd P)) = sends (trace w) @ pre"
       "fst ` set pre \<subseteq> {cb_chat_id cb}" "answers (trace (snd P)) = answers (trace w)"
    by (auto simp: P_def)
  define G where "G = get_all_registered_users e (snd P)"
  have g: "users (snd G) = users w" "sends (trace (snd G)) = sends (trace w) @ pre"
    "fst G = (if db_raises e (step (snd P)) then [] else registered_ids w)"
    "answers (trace (snd G)) = answers (trace w)"
    using get_all_registered_users_frame [of e "snd P"] p
    by (simp_all add: G_def registered_ids_def) (simp add: get_all_registered_users_def)
  define R where "R = (if fst P \<or> db_raises e (step (snd P)) then [] else registered_ids w)"
  have goal: "\<exists>post ans. sent_since w ?h = pre @ map (\<lambda>u. (u, md_text md)) R @ post
       \<and> fst ` set post \<subseteq> {cb_chat_id cb}
       \<and> answers (trace ?h) = answers (trace w) @ ans \<and> fst ` set ans \<subseteq> {cb_chat_id cb}"
  proof (cases "fst P")
    case True
    then have "?h = snd P"
      by (simp add: confirm_send_callback_handler_def P_def [symmetric] case_prod_beta)
    with True p(2,4) have "sent_since w ?h = pre @ map (\<lambda>u. (u, md_text md)) R @ []"
      "answers (trace ?h) = answers (trace w) @ []"
      by (simp_all add: R_def sent_since_append)
    then show ?thesis by (intro exI [of _ "[]"]) simp
  next
    case np: False
    show ?thesis
    proof (cases "fst G = []")
      case True
      let ?m = "message_answer e cb TEXT_NO_USERS (snd G)"
      from True np have "?h = (if fst ?m then snd ?m else state_clear (snd ?m))"
        by (simp add: confirm_send_callback_handler_def P_def [symmetric] G_def [symmetric] case_prod_beta)
      then have "sends (trace ?h) = sends (trace w) @ pre"
        "answers (trace ?h) = answers (trace w) @ [(cb_chat_id cb, TEXT_NO_USERS)]"
        using message_answer_frame [of e cb TEXT_NO_USERS "snd G"] g(2,4) by simp_all
      moreover from True np g(3) have "R = []" by (simp add: R_def split: if_splits)
      ultimately have "sent_since w ?h = pre @ map (\<lambda>u. (u, md_text md)) R @ []"
        "answers (trace ?h) = answers (trace w) @ [(cb_chat_id cb, TEXT_NO_USERS)]"
        by (simp_all add: sent_since_append)
      then show ?thesis
        by (intro exI [of _ "[]"] exI [of _ "[(cb_chat_id cb, TEXT_NO_USERS)]"]) simp
    next
      case False
      define L where "L = admin_send_loop e md (fst G) (0, 0) (snd G)"
      define w4 where "w4 = safe_edit_message e cb (result_text (fst (fst L)) (snd (fst L)) (length (fst G))) (snd L)"
      let ?m = "message_answer e cb TEXT_DONE w4"
      have l: "sends (trace (snd L)) = sends (trace w) @ pre @ map (\<lambda>u. (u, md_text md)) (fst G)"
        "answers (trace (snd L)) = answers (trace w)"
        using admin_send_loop_frame [of e md "fst G" "(0, 0)" "snd G"]
          admin_send_loop_answers [of e md "fst G" "(0, 0)" "snd G"] g(2,4) by (simp_all add: L_def)
      from safe_edit_message_frame [of e cb "result_text (fst (fst L)) (snd (fst L)) (length (fst G))" "snd L"]
      obtain ys where y: "sends (trace w4) = sends (trace (snd L)) @ ys" "fst ` set ys \<subseteq> {cb_chat_id cb}"
        "answers (trace w4) = answers (trace (snd L))"
        by (auto simp: w4_def)
      from np False have "?h = (if fst ?m then snd ?m else state_clear (snd ?m))"
        by (simp add: confirm_send_callback_handler_def P_def [symmetric] G_def [symmetric]
              L_def [symmetric] w4_def case_prod_beta Let_def)
      then have "sends (trace ?h) = sends (trace w) @ pre @ map (\<lambda>u. (u, md_text md)) (fst G) @ ys"
        "answers (trace ?h) = answers (trace w) @ [(cb_chat_id cb, TEXT_DONE)]"
        using message_answer_frame [of e cb TEXT_DONE w4] y(1,3) l by simp_all
      moreover from False np g(3) have "R = fst G" by (simp add: R_def split: if_splits)
      ultimately have "sent_since w ?h = pre @ map (\<lambda>u. (u, md_text md)) R @ ys"
        "answers (trace ?h) = answers (trace w) @ [(cb_chat_id cb, TEXT_DONE)]"
        by (simp_all add: sent_since_append)
      with y(2) show ?thesis
        by (intro exI [of _ ys] exI [of _ "[(cb_chat_id cb, TEXT_DONE)]"]) simp
    qed
  qed
  with p(3) show ?thesis unfolding R_def P_def by blast
qed

lemma confirm_send_callback_handler_no_data:
  "sent_since w (snd (confirm_send_callback_handler e cb None w)) = []
   \<and> answers (trace (snd (confirm_send_callback_handler e cb None w))) = answers (trace w)"
  by (simp add: confirm_send_callback_handler_def callback_answer_def sent_since_def)

text \<open>
  Claim C9. Every broadcast reads its recipients with \<open>get_all_registered_users\<close>, which
  returns the ids of the rows with \<open>subscribed = 1\<close>, or the empty list when the store
  raises. The chats a scheduler tick sends to (reminders and the end of the marathon) are
  exactly the registered users when a reminder is due and the store can be read, and none
  otherwise. The admin broadcast sends the message to each registered user in turn, to
  nobody when the handler stops before the read or the store raises, and anything else it
  sends or answers goes to the administrator's own chat. The raffle announcement goes to exactly the
  users registered in the store as the raffle leaves it, whenever there is an eligible
  participant and the store raises neither when the winners are saved nor when the
  recipients are read, and to nobody otherwise; the raffle registers nobody who was not
  registered. A user that \<open>add_user\<close> has just created is not registered.
\<close>

theorem broadcasts_reach_exactly_the_registered:
  "fst (get_all_registered_users e w) = (if db_raises e (step w) then [] else registered_ids w)
   \<and> registered_ids w = map user_id (filter (\<lambda>r. subscribed r = 1) (users w))
   \<and> fst ` set (sent_since w (check_and_send_reminders e cfg w)) =
       (if db_raises e (Suc (step w)) \<or> due_reminders cfg (now_tuple (clock e (step w))) = [] then {}
        else set (registered_ids w))
   \<and> (\<exists>pre post ans.
         sent_since w (snd (confirm_send_callback_handler e cb (Some md) w)) =
           pre @ map (\<lambda>u. (u, md_text md))
                   (if fst (confirm_send_prologue e cb w)
                       \<or> db_raises e (step (snd (confirm_send_prologue e cb w)))
                    then [] else registered_ids w) @ post
         \<and> fst ` set pre \<subseteq> {cb_chat_id cb} \<and> fst ` set post \<subseteq> {cb_chat_id cb}
         \<and> answers (trace (snd (confirm_send_callback_handler e cb (Some md) w))) = answers (trace w) @ ans
         \<and> fst ` set ans \<subseteq> {cb_chat_id cb})
   \<and> sent_since w (snd (confirm_send_callback_handler e cb None w)) = []
   \<and> answers (trace (snd (confirm_send_callback_handler e cb None w))) = answers (trace w)
   \<and> fst ` set (sent_since w (conduct_raffle e cfg w)) =
       (if eligible_after_recheck e cfg w = []
           \<or> db_raises e (step (world_after_draw e cfg w))
           \<or> db_raises e (Suc (step (world_after_draw e cfg w))
                             + min (length (eligible_after_recheck e cfg w)) 3)
        then {} else set (registered_ids (conduct_raffle e cfg w)))
   \<and> set (registered_ids (conduct_raffle e cfg w)) \<subseteq> set (registered_ids w)
   \<and> (uid \<notin> user_id ` set (users w) \<longrightarrow> uid \<notin> set (registered_ids (add_user e uid un fn w)))"
proof -
  have 1: "fst (get_all_registered_users e w) = (if db_raises e (step w) then [] else registered_ids w)"
    using get_all_registered_users_frame [of e w] by blast
  have 2: "registered_ids w = map user_id (filter (\<lambda>r. subscribed r = 1) (users w))"
    by (simp add: registered_ids_def)
  have 7: "set (registered_ids (conduct_raffle e cfg w)) \<subseteq> set (registered_ids w)"
    using conduct_raffle_outcome [of e cfg w] by blast
  have 8: "uid \<notin> user_id ` set (users w) \<longrightarrow> uid \<notin> set (registered_ids (add_user e uid un fn w))"
    using add_user_new_not_registered [of uid w e un fn] by blast
  note 5 = confirm_send_callback_handler_no_data [of w e cb]
  from 1 2 tick_recipients [of w e cfg] confirm_send_callback_handler_sends [of w e cb md]
    conjunct1 [OF 5] conjunct2 [OF 5] conduct_raffle_recipients_exact [of w e cfg] 7 8
  show ?thesis by (intro conjI)
qed

lemma users_check_subscription: "users (snd (check_subscription e cfg uid w)) = users w"
  using check_subscription_frame [of e cfg uid w] by blast

lemma users_update_user_subscription_status:
  "users (update_user_subscription_status e uid b w) =
     (if db_raises e (step w) then users w
      else map (\<lambda>r. if user_id r = uid then r\<lparr>subscribed := (if b then 1 else 0)\<rparr> else r) (users w))"
  by (simp add: update_user_subscription_status_def)

theorem broadcasts_reach_exactly_the_registered_witness:
  "3 \<notin> user_id ` set (users two_users_world)
   \<and> 3 \<notin> set (registered_ids (add_user quiet_env 3 (Some ''vera'') None two_users_world))
   \<and> registered_ids two_users_world = [1]
   \<and> fst ` set (sent_since two_users_world
        (check_and_send_reminders hour_before_env sample_config two_users_world)) = {1}
   \<and> eligible_after_recheck quiet_env sample_config two_users_world =
        [\<lparr>user_id = 1, username = Some ''anna'', first_name = Some ''Anna''\<rparr>]
   \<and> fst ` set (sent_since two_users_world (conduct_raffle quiet_env sample_config two_users_world)) = {1}
   \<and> sent_since two_users_world
        (snd (confirm_send_callback_handler quiet_env admin_callback
               (Some \<lparr>md_text = ''news'', md_photo = None\<rparr>) two_users_world)) = [(1, ''news'')]
   \<and> answers (trace (snd (confirm_send_callback_handler quiet_env admin_callback
               (Some \<lparr>md_text = ''news'', md_photo = None\<rparr>) two_users_world))) = [(1000, TEXT_DONE)]"
proof -
  let ?w = two_users_world and ?md = "\<lparr>md_text = ''news'', md_photo = None\<rparr>"
  let ?el = "[\<lparr>user_id = 1, username = Some ''anna'', first_name = Some ''Anna''\<rparr>]"
  have n: "3 \<notin> user_id ` set (users ?w)"
    by (simp add: two_users_world_def)
  have r: "registered_ids ?w = [1]"
    by (simp add: registered_ids_def two_users_world_def)
  have d: "due_reminders sample_config (now_tuple (clock hour_before_env (step ?w))) \<noteq> []"
    by (simp add: due_reminders_def reminders_of_def sample_config_def now_tuple_def hour_before_env_def)
  have db: "\<not> db_raises hour_before_env k" "\<not> db_raises quiet_env k" for k
    by (simp_all add: hour_before_env_def quiet_env_def)
  have m: "member_result quiet_env = (\<lambda>n c u. Status MEMBER)"
    by (simp add: quiet_env_def)
  have c: "fst (check_subscription quiet_env sample_config uid w)" for uid w
    using m by (rule check_subscription_all_members)
  have p: "fst (get_eligible_raffle_participants quiet_env (logger Info ?w)) = ?el"
    by (simp add: get_eligible_raffle_participants_def db two_users_world_def)
  have el: "eligible_after_recheck quiet_env sample_config ?w = ?el"
    unfolding eligible_after_recheck_def case_prod_beta Let_def p
    by (rule recheck_participants_everybody [OF c]) simp
  have ne: "eligible_after_recheck quiet_env sample_config ?w \<noteq> []"
    by (simp add: el)
  have "users (world_before_draw quiet_env sample_config ?w) = users ?w"
    unfolding world_before_draw_def case_prod_beta Let_def p
    by (simp add: c case_prod_beta users_check_subscription users_update_user_subscription_status db
          get_eligible_raffle_participants_def two_users_world_def)
  then have "users (conduct_raffle quiet_env sample_config ?w) = users ?w"
    by (simp add: conduct_raffle_users [OF ne])
  then have rr: "registered_ids (conduct_raffle quiet_env sample_config ?w) = [1]"
    by (simp add: registered_ids_def two_users_world_def)
  note res = broadcasts_reach_exactly_the_registered [of _ ?w _ admin_callback ?md 3 "Some ''vera''" None]
  from res [of quiet_env sample_config] n
  have a: "3 \<notin> set (registered_ids (add_user quiet_env 3 (Some ''vera'') None ?w))"
    by blast
  from res [of hour_before_env sample_config] d db r
  have t: "fst ` set (sent_since ?w (check_and_send_reminders hour_before_env sample_config ?w)) = {1}"
    by simp
  from res [of quiet_env sample_config] ne db rr
  have f: "fst ` set (sent_since ?w (conduct_raffle quiet_env sample_config ?w)) = {1}"
    by simp
  have h: "sent_since ?w (snd (confirm_send_callback_handler quiet_env admin_callback (Some ?md) ?w)) =
        [(1, ''news'')]"
    "answers (trace (snd (confirm_send_callback_handler quiet_env admin_callback (Some ?md) ?w))) =
        [(1000, TEXT_DONE)]"
    by (simp_all add: confirm_send_callback_handler_def confirm_send_prologue_def safe_edit_message_def
          callback_answer_def message_answer_def get_all_registered_users_def admin_callback_def
          quiet_env_def two_users_world_def sent_since_def Let_def)
  from n a r t el f h show ?thesis by blast
qed

end
